theory Spec2Isabelle
  imports Complex_Main "HOL-Library.Sublist"
begin

section \<open>Values exchanged with the two HTTP services\<close>

text \<open>
  Everything the program reads from a response body is what Python's JSON parser
  produces: \<open>None\<close>, \<open>bool\<close>, \<open>int\<close>, \<open>float\<close>, \<open>str\<close>, \<open>list\<close> and \<open>dict\<close>.
  A dict is kept as an association list in insertion order and read with \<open>map_of\<close>.
  A float is represented by the rational it denotes (NaN and the infinities, which the
  parser also accepts, are outside the model).
\<close>

datatype json =
    JNull
  | JBool bool
  | JInt int
  | JFloat rat
  | JStr string
  | JList "json list"
  | JObj "(string \<times> json) list"

text \<open>Python's truth value of a parsed JSON value (\<open>if not token\<close>, \<open>bool(...)\<close>).\<close>

fun truthy :: "json \<Rightarrow> bool" where
  "truthy JNull = False"
| "truthy (JBool b) = b"
| "truthy (JInt n) = (n \<noteq> 0)"
| "truthy (JFloat q) = (q \<noteq> 0)"
| "truthy (JStr s) = (s \<noteq> [])"
| "truthy (JList xs) = (xs \<noteq> [])"
| "truthy (JObj kvs) = (kvs \<noteq> [])"

text \<open>
  Membership in a Python \<open>set\<close> goes through \<open>hash\<close> and \<open>==\<close>. Lists and dicts are
  unhashable (\<open>TypeError\<close>); \<open>True == 1 == 1.0\<close> and \<open>False == 0\<close>, so booleans and
  numbers share one key space.
\<close>

datatype hkey = KNone | KNum rat | KStr string

fun hash_key :: "json \<Rightarrow> hkey option" where
  "hash_key JNull = Some KNone"
| "hash_key (JBool b) = Some (KNum (if b then 1 else 0))"
| "hash_key (JInt n) = Some (KNum (of_int n))"
| "hash_key (JFloat q) = Some (KNum q)"
| "hash_key (JStr s) = Some (KStr s)"
| "hash_key (JList xs) = None"
| "hash_key (JObj kvs) = None"

text \<open>The exceptions the program can meet; all are subclasses of \<open>Exception\<close>.\<close>

datatype exn =
    ConnectionError
  | HTTPError nat
  | JSONDecodeError
  | ValueError string
  | TypeError
  | AttributeError
  | KeyError
  | OverflowError

text \<open>
  A response as the program reads it: the status code and the body parsed as JSON
  (\<open>None\<close> when the body is not valid JSON, so that \<open>response.json()\<close> and
  \<open>json.loads(response.text)\<close> raise).
\<close>

record response =
  status_code :: nat
  json_body :: "json option"

text \<open>\<open>raise_for_status\<close>: an \<open>HTTPError\<close> for a 4xx or 5xx status, nothing otherwise.\<close>

definition raise_for_status :: "response \<Rightarrow> exn + unit" where
  "raise_for_status r =
     (if 400 \<le> status_code r \<and> status_code r < 600 then Inl (HTTPError (status_code r))
      else Inr ())"

section \<open>The environment: requests, log lines, clock\<close>

text \<open>
  The HTTP calls of the program. URLs, credentials and fixed query parameters come from
  the process environment or are constants; they do not vary within a run and are not
  carried. A date string \<open>%Y%m%d\<close> (and the \<open>toDate\<close> stamp at 23:59:59) is represented
  by the number of the UTC calendar day it names (days since 1970-01-01).
\<close>

datatype request =
    TokenReq
  | MetersReq json
  | DataReq json json int
  | ForwardReq "json list"
  | SubjectsReq
  | MeasurementsReq "json list" int nat

datatype msg =
    MsgSkip
  | MsgProceed
  | MsgAuthenticating
  | MsgBackfilling int
  | MsgFetchingFor int
  | MsgSendingFor int
  | MsgBackfillComplete
  | MsgFetchingYesterday
  | MsgSending
  | MsgDone
  | MsgError exn
  | MsgAuthFailed nat
  | MsgMetersFailed nat
  | MsgMeterFailed json nat

datatype event = Req request | Log msg

text \<open>
  The world answers a request, and tells the time (POSIX seconds, UTC), as a function of
  everything that happened before: the history of events of the run, oldest first.
  An answer is a response or an exception of the transport.
\<close>

record world =
  respond :: "event list \<Rightarrow> request \<Rightarrow> exn + response"
  clock :: "event list \<Rightarrow> int"

type_synonym 'a io = "event list \<Rightarrow> (exn + 'a) \<times> event list"

text \<open>
  \<open>datetime.now(timezone.utc) - timedelta(days=k)\<close>: \<open>timedelta\<close> refuses more than
  999999999 days, and the difference must stay within years 1 to 9999
  (\<open>OverflowError\<close> otherwise).
\<close>

definition min_secs :: int where
  "min_secs = - 719162 * 86400"

definition max_secs :: int where
  "max_secs = 2932897 * 86400"

definition minus_days :: "int \<Rightarrow> int \<Rightarrow> exn + int" where
  "minus_days t k =
     (if k < - 999999999 \<or> 999999999 < k then Inl OverflowError
      else if t - 86400 * k < min_secs \<or> max_secs \<le> t - 86400 * k then Inl OverflowError
      else Inr (t - 86400 * k))"

definition utc_day :: "int \<Rightarrow> int" where
  "utc_day t = t div 86400"

section \<open>get_access_token\<close>

text \<open>
  \<open>token_of\<close> is the body of the \<open>try\<close> block: the status check, the parse, the lookup of
  \<open>token\<close> (\<open>.get\<close> exists on a dict only) and the test \<open>if not token\<close>. The request itself
  is made before the \<open>try\<close>: an exception of the transport is not announced by the
  handler's \<open>print\<close>.
\<close>

definition token_of :: "response \<Rightarrow> exn + json" where
  "token_of r =
     (case raise_for_status r of
        Inl e \<Rightarrow> Inl e
      | Inr _ \<Rightarrow>
          (case json_body r of
             None \<Rightarrow> Inl JSONDecodeError
           | Some (JObj kvs) \<Rightarrow>
               (case map_of kvs ''token'' of
                  None \<Rightarrow> Inl (ValueError ''No token found in response.'')
                | Some tok \<Rightarrow>
                    if truthy tok then Inr tok
                    else Inl (ValueError ''No token found in response.''))
           | Some _ \<Rightarrow> Inl AttributeError))"

definition get_access_token :: "world \<Rightarrow> json io" where
  "get_access_token w tr =
     (case respond w tr TokenReq of
        Inl e \<Rightarrow> (Inl e, tr @ [Req TokenReq])
      | Inr r \<Rightarrow>
          (case token_of r of
             Inl e \<Rightarrow> (Inl e, tr @ [Req TokenReq, Log (MsgAuthFailed (status_code r))])
           | Inr tok \<Rightarrow> (Inr tok, tr @ [Req TokenReq])))"

section \<open>fetch_power_usage\<close>

subsection \<open>Step 1: the meter list\<close>

text \<open>
  \<open>meter_ids\<close> is the comprehension \<open>[m["id"] for m in ... if isinstance(m, dict) and "id" in m]\<close>,
  \<open>dedup\<close> the loop over it with the set \<open>seen\<close>, \<open>parse_meters\<close> the body of the \<open>try\<close> block
  and \<open>list_meters\<close> the whole step: the request and the status check stand before the
  \<open>try\<close>, so only a failure of the parse is announced by the handler's \<open>print\<close>.
\<close>

fun meter_id_of :: "json \<Rightarrow> json option" where
  "meter_id_of (JObj kvs) = map_of kvs ''id''"
| "meter_id_of _ = None"

definition meter_ids :: "json list \<Rightarrow> json list" where
  "meter_ids ms = List.map_filter meter_id_of ms"

fun dedup :: "json list \<Rightarrow> hkey set \<Rightarrow> json list \<Rightarrow> exn + json list" where
  "dedup [] seen unique_meter_ids = Inr unique_meter_ids"
| "dedup (mid # rest) seen unique_meter_ids =
     (case hash_key mid of
        None \<Rightarrow> Inl TypeError
      | Some k \<Rightarrow>
          if k \<notin> seen then dedup rest (insert k seen) (unique_meter_ids @ [mid])
          else dedup rest seen unique_meter_ids)"

definition parse_meters :: "response \<Rightarrow> exn + json list" where
  "parse_meters r =
     (case json_body r of
        None \<Rightarrow> Inl JSONDecodeError
      | Some (JObj kvs) \<Rightarrow>
          (case map_of kvs ''meters'' of
             Some (JList ms) \<Rightarrow> dedup (meter_ids ms) {} []
           | _ \<Rightarrow> Inl (ValueError ''Unexpected meters data format''))
      | Some _ \<Rightarrow> Inl (ValueError ''Unexpected meters data format''))"

definition list_meters :: "world \<Rightarrow> json \<Rightarrow> (json list) io" where
  "list_meters w token tr =
     (case respond w tr (MetersReq token) of
        Inl e \<Rightarrow> (Inl e, tr @ [Req (MetersReq token)])
      | Inr r \<Rightarrow>
          (case raise_for_status r of
             Inl e \<Rightarrow> (Inl e, tr @ [Req (MetersReq token)])
           | Inr _ \<Rightarrow>
               (case parse_meters r of
                  Inl e \<Rightarrow>
                    (Inl e, tr @ [Req (MetersReq token), Log (MsgMetersFailed (status_code r))])
                | Inr ids \<Rightarrow> (Inr ids, tr @ [Req (MetersReq token)]))))"

subsection \<open>Step 2: one request per meter\<close>

text \<open>
  \<open>fetch_each\<close> is the loop over \<open>meter_ids\<close> with the accumulator \<open>all_data\<close>;
  \<open>parse_data\<close> is the body of its \<open>try\<close> block. In \<open>fetch_power_usage\<close> the argument
  \<open>date_arg\<close> is \<open>None\<close> when the caller gives no date (the date is then yesterday's, read
  from the clock before any request) and \<open>Some d\<close> for the date string of day \<open>d\<close>.
\<close>

definition parse_data :: "response \<Rightarrow> exn + json" where
  "parse_data r =
     (case raise_for_status r of
        Inl e \<Rightarrow> Inl e
      | Inr _ \<Rightarrow> (case json_body r of None \<Rightarrow> Inl JSONDecodeError | Some raw \<Rightarrow> Inr raw))"

fun fetch_each :: "world \<Rightarrow> json \<Rightarrow> int \<Rightarrow> json list \<Rightarrow> json list \<Rightarrow> (json list) io" where
  "fetch_each w token date_str [] all_data tr = (Inr all_data, tr)"
| "fetch_each w token date_str (meter_id # rest) all_data tr =
     (case respond w tr (DataReq token meter_id date_str) of
        Inl e \<Rightarrow> (Inl e, tr @ [Req (DataReq token meter_id date_str)])
      | Inr r \<Rightarrow>
          (case parse_data r of
             Inl e \<Rightarrow>
               (Inl e, tr @ [Req (DataReq token meter_id date_str),
                             Log (MsgMeterFailed meter_id (status_code r))])
           | Inr raw \<Rightarrow>
               fetch_each w token date_str rest (all_data @ [raw])
                 (tr @ [Req (DataReq token meter_id date_str)])))"

definition fetch_power_usage :: "world \<Rightarrow> json \<Rightarrow> int option \<Rightarrow> (json list) io" where
  "fetch_power_usage w token date_arg tr =
     (case (case date_arg of
              None \<Rightarrow> map_sum id utc_day (minus_days (clock w tr) 1)
            | Some d \<Rightarrow> Inr d) of
        Inl e \<Rightarrow> (Inl e, tr)
      | Inr date_str \<Rightarrow>
          (case list_meters w token tr of
             (Inl e, tr1) \<Rightarrow> (Inl e, tr1)
           | (Inr ids, tr1) \<Rightarrow> fetch_each w token date_str ids [] tr1))"

section \<open>forward_to_blockbax\<close>

definition forward_to_blockbax :: "world \<Rightarrow> json list \<Rightarrow> unit io" where
  "forward_to_blockbax w data tr =
     (case respond w tr (ForwardReq data) of
        Inl e \<Rightarrow> (Inl e, tr @ [Req (ForwardReq data)])
      | Inr r \<Rightarrow>
          (case raise_for_status r of
             Inl e \<Rightarrow> (Inl e, tr @ [Req (ForwardReq data)])
           | Inr _ \<Rightarrow> (Inr (), tr @ [Req (ForwardReq data)])))"

section \<open>check_run_yesterday\<close>

text \<open>
  \<open>[s["id"] for s in subjects if "id" in s]\<close> over whatever the \<open>result\<close> field holds:
  iterating a list gives its elements, a dict its keys, a string its characters, and
  anything else is not iterable; \<open>"id" in s\<close> is key membership for a dict, a substring
  test for a string, element membership for a list and a \<open>TypeError\<close> otherwise;
  \<open>s["id"]\<close> succeeds on a dict only. \<open>subjects_of\<close> is everything the function does with
  the first answer, \<open>has_result\<close> everything it does with the second.
\<close>

fun py_iter :: "json \<Rightarrow> exn + json list" where
  "py_iter (JList xs) = Inr xs"
| "py_iter (JObj kvs) = Inr (map (\<lambda>kv. JStr (fst kv)) kvs)"
| "py_iter (JStr s) = Inr (map (\<lambda>c. JStr [c]) s)"
| "py_iter _ = Inl TypeError"

fun contains_id :: "json \<Rightarrow> exn + bool" where
  "contains_id (JObj kvs) = Inr (map_of kvs ''id'' \<noteq> None)"
| "contains_id (JStr s) = Inr (sublist ''id'' s)"
| "contains_id (JList xs) = Inr (JStr ''id'' \<in> set xs)"
| "contains_id _ = Inl TypeError"

fun subscript_id :: "json \<Rightarrow> exn + json" where
  "subscript_id (JObj kvs) = (case map_of kvs ''id'' of None \<Rightarrow> Inl KeyError | Some v \<Rightarrow> Inr v)"
| "subscript_id _ = Inl TypeError"

fun subject_ids :: "json list \<Rightarrow> exn + json list" where
  "subject_ids [] = Inr []"
| "subject_ids (s # rest) =
     (case contains_id s of
        Inl e \<Rightarrow> Inl e
      | Inr False \<Rightarrow> subject_ids rest
      | Inr True \<Rightarrow>
          (case subscript_id s of
             Inl e \<Rightarrow> Inl e
           | Inr v \<Rightarrow> (case subject_ids rest of Inl e \<Rightarrow> Inl e | Inr vs \<Rightarrow> Inr (v # vs))))"

definition subjects_of :: "response \<Rightarrow> exn + json list" where
  "subjects_of r =
     (case raise_for_status r of
        Inl e \<Rightarrow> Inl e
      | Inr _ \<Rightarrow>
          (case json_body r of
             None \<Rightarrow> Inl JSONDecodeError
           | Some (JObj kvs) \<Rightarrow>
               (case py_iter (case map_of kvs ''result'' of None \<Rightarrow> JList [] | Some v \<Rightarrow> v) of
                  Inl e \<Rightarrow> Inl e
                | Inr subjects \<Rightarrow> subject_ids subjects)
           | Some _ \<Rightarrow> Inl AttributeError))"

definition has_result :: "response \<Rightarrow> exn + bool" where
  "has_result r =
     (case raise_for_status r of
        Inl e \<Rightarrow> Inl e
      | Inr _ \<Rightarrow>
          (case json_body r of
             None \<Rightarrow> Inl JSONDecodeError
           | Some (JObj kvs) \<Rightarrow>
               Inr (case map_of kvs ''result'' of None \<Rightarrow> False | Some v \<Rightarrow> truthy v)
           | Some _ \<Rightarrow> Inl AttributeError))"

definition check_run_yesterday :: "world \<Rightarrow> bool io" where
  "check_run_yesterday w tr =
     (case respond w tr SubjectsReq of
        Inl e \<Rightarrow> (Inl e, tr @ [Req SubjectsReq])
      | Inr resp \<Rightarrow>
          (case subjects_of resp of
             Inl e \<Rightarrow> (Inl e, tr @ [Req SubjectsReq])
           | Inr sids \<Rightarrow>
               (case minus_days (clock w (tr @ [Req SubjectsReq])) 1 of
                  Inl e \<Rightarrow> (Inl e, tr @ [Req SubjectsReq])
                | Inr t \<Rightarrow>
                    (case respond w (tr @ [Req SubjectsReq]) (MeasurementsReq sids (utc_day t) 1) of
                       Inl e \<Rightarrow>
                         (Inl e, tr @ [Req SubjectsReq, Req (MeasurementsReq sids (utc_day t) 1)])
                     | Inr resp2 \<Rightarrow>
                         (has_result resp2,
                          tr @ [Req SubjectsReq, Req (MeasurementsReq sids (utc_day t) 1)])))))"

section \<open>main\<close>

text \<open>\<open>range(n, 0, -1)\<close>: \<open>n, n - 1, ..., 1\<close>, empty when \<open>n \<le> 0\<close>.\<close>

definition range_down :: "int \<Rightarrow> int list" where
  "range_down n = rev [1..n]"

fun backfill :: "world \<Rightarrow> json \<Rightarrow> int list \<Rightarrow> unit io" where
  "backfill w token [] tr = (Inr (), tr)"
| "backfill w token (days_ago # rest) tr =
     (case minus_days (clock w tr) days_ago of
        Inl e \<Rightarrow> (Inl e, tr)
      | Inr t \<Rightarrow>
          (case fetch_power_usage w token (Some (utc_day t)) (tr @ [Log (MsgFetchingFor (utc_day t))]) of
             (Inl e, tr1) \<Rightarrow> (Inl e, tr1)
           | (Inr data, tr1) \<Rightarrow>
               (case forward_to_blockbax w data (tr1 @ [Log (MsgSendingFor (utc_day t))]) of
                  (Inl e, tr2) \<Rightarrow> (Inl e, tr2)
                | (Inr _, tr2) \<Rightarrow> backfill w token rest tr2)))"

text \<open>The body of the \<open>try\<close> block of \<open>main\<close>; \<open>backfill_days\<close> is \<open>args.backfill_days\<close>.\<close>

definition main_body :: "world \<Rightarrow> int \<Rightarrow> unit io" where
  "main_body w backfill_days tr =
     (case check_run_yesterday w tr of
        (Inl e, tr1) \<Rightarrow> (Inl e, tr1)
      | (Inr True, tr1) \<Rightarrow> (Inr (), tr1 @ [Log MsgSkip])
      | (Inr False, tr1) \<Rightarrow>
          (case get_access_token w (tr1 @ [Log MsgProceed, Log MsgAuthenticating]) of
             (Inl e, tr2) \<Rightarrow> (Inl e, tr2)
           | (Inr token, tr2) \<Rightarrow>
               if backfill_days > 0 then
                 (case backfill w token (range_down backfill_days)
                         (tr2 @ [Log (MsgBackfilling backfill_days)]) of
                    (Inl e, tr3) \<Rightarrow> (Inl e, tr3)
                  | (Inr _, tr3) \<Rightarrow> (Inr (), tr3 @ [Log MsgBackfillComplete]))
               else
                 (case fetch_power_usage w token None (tr2 @ [Log MsgFetchingYesterday]) of
                    (Inl e, tr3) \<Rightarrow> (Inl e, tr3)
                  | (Inr data, tr3) \<Rightarrow>
                      (case forward_to_blockbax w data (tr3 @ [Log MsgSending]) of
                         (Inl e, tr4) \<Rightarrow> (Inl e, tr4)
                       | (Inr _, tr4) \<Rightarrow> (Inr (), tr4 @ [Log MsgDone])))))"

text \<open>\<open>main\<close>: the \<open>try\<close> block with its handler \<open>except Exception as e: print(...)\<close>.\<close>

definition main :: "world \<Rightarrow> int \<Rightarrow> unit io" where
  "main w backfill_days tr =
     (case main_body w backfill_days tr of
        (Inl e, tr1) \<Rightarrow> (Inr (), tr1 @ [Log (MsgError e)])
      | (Inr u, tr1) \<Rightarrow> (Inr u, tr1))"

text \<open>
  The script calls \<open>main()\<close> last: the interpreter exits with status 0 when the call
  returns and with status 1 when an exception leaves it.
\<close>

definition exit_status :: "world \<Rightarrow> int \<Rightarrow> nat" where
  "exit_status w backfill_days = (case fst (main w backfill_days []) of Inl e \<Rightarrow> 1 | Inr u \<Rightarrow> 0)"

section \<open>Vocabulary of the properties\<close>

text \<open>A meter record bearing an identifier: a JSON object that has the key \<open>id\<close>.\<close>

fun is_meter_record :: "json \<Rightarrow> bool" where
  "is_meter_record (JObj kvs) = (''id'' \<in> fst ` set kvs)"
| "is_meter_record _ = False"

text \<open>
  The expected shape of the meter list, as far as the code enforces it: an object whose
  field \<open>meters\<close> is a list.
\<close>

fun meters_field :: "json option \<Rightarrow> json list option" where
  "meters_field (Some (JObj kvs)) =
     (case map_of kvs ''meters'' of Some (JList ms) \<Rightarrow> Some ms | _ \<Rightarrow> None)"
| "meters_field _ = None"

text \<open>
  A request that failed: the transport raised, the status is 4xx or 5xx, or the body
  is not JSON.
\<close>

fun failed_response :: "exn + response \<Rightarrow> bool" where
  "failed_response (Inl e) = True"
| "failed_response (Inr r) =
     ((400 \<le> status_code r \<and> status_code r < 600) \<or> json_body r = None)"

fun payload_of :: "exn + response \<Rightarrow> json" where
  "payload_of (Inr r) = (case json_body r of Some raw \<Rightarrow> raw | None \<Rightarrow> JNull)"
| "payload_of (Inl e) = JNull"

text \<open>The answers the world gives to requests issued one after the other from history \<open>tr\<close>.\<close>

fun responses :: "world \<Rightarrow> event list \<Rightarrow> request list \<Rightarrow> (exn + response) list" where
  "responses w tr [] = []"
| "responses w tr (q # qs) = respond w tr q # responses w (tr @ [Req q]) qs"

fun is_log :: "event \<Rightarrow> bool" where
  "is_log (Log m) = True"
| "is_log (Req q) = False"

text \<open>The event \<open>e\<close>, occurring after history \<open>pre\<close>, is a per-meter request that failed.\<close>

fun data_failure :: "world \<Rightarrow> event list \<Rightarrow> event \<Rightarrow> bool" where
  "data_failure w pre (Req (DataReq token meter_id d)) =
     failed_response (respond w pre (DataReq token meter_id d))"
| "data_failure w pre _ = False"

fun has_data_failure :: "world \<Rightarrow> event list \<Rightarrow> event list \<Rightarrow> bool" where
  "has_data_failure w pre [] = False"
| "has_data_failure w pre (e # es) =
     (data_failure w pre e \<or> has_data_failure w (pre @ [e]) es)"

text \<open>After the first failed per-meter request, no request at all follows: only log lines.\<close>

fun aborts_after_failure :: "world \<Rightarrow> event list \<Rightarrow> event list \<Rightarrow> bool" where
  "aborts_after_failure w pre [] = True"
| "aborts_after_failure w pre (e # es) =
     (if data_failure w pre e then list_all is_log es
      else aborts_after_failure w (pre @ [e]) es)"

text \<open>A per-meter request of the fetcher.\<close>

fun is_data_request :: "event \<Rightarrow> bool" where
  "is_data_request (Req (DataReq token meter_id d)) = True"
| "is_data_request _ = False"

text \<open>
  What a part of the run that started at history \<open>tr\<close> and added the events \<open>ext\<close> must
  satisfy: nothing but log lines after a failed per-meter request, and an exception as the
  outcome (\<open>raised\<close>) when there was one.
\<close>

definition settled :: "world \<Rightarrow> event list \<Rightarrow> bool \<Rightarrow> event list \<Rightarrow> bool" where
  "settled w tr raised ext =
     (aborts_after_failure w tr ext \<and> (has_data_failure w tr ext \<longrightarrow> raised))"

text \<open>A call of the authenticator, the meter enumerator, the fetcher or the forwarder.\<close>

fun is_pipeline_call :: "event \<Rightarrow> bool" where
  "is_pipeline_call (Req TokenReq) = True"
| "is_pipeline_call (Req (MetersReq token)) = True"
| "is_pipeline_call (Req (DataReq token meter_id d)) = True"
| "is_pipeline_call (Req (ForwardReq data)) = True"
| "is_pipeline_call _ = False"

text \<open>
  The requests of one fetch/forward cycle for day \<open>d\<close> with bearer token \<open>token\<close>: the
  meter list, one data request per meter, one submission.
\<close>

definition cycle_requests :: "json \<Rightarrow> int \<Rightarrow> json list \<times> json list \<Rightarrow> request list" where
  "cycle_requests token d c =
     MetersReq token # map (\<lambda>meter_id. DataReq token meter_id d) (fst c) @ [ForwardReq (snd c)]"

definition requests_of :: "event list \<Rightarrow> request list" where
  "requests_of tr = concat (map (\<lambda>e. case e of Req q \<Rightarrow> [q] | Log m \<Rightarrow> []) tr)"

text \<open>
  The identifiers of a list that are not yet in \<open>seen\<close> and were not met earlier in the
  list, in the order of the list.
\<close>

fun first_seen :: "json list \<Rightarrow> hkey set \<Rightarrow> json list" where
  "first_seen [] seen = []"
| "first_seen (x # xs) seen =
     (if the (hash_key x) \<in> seen then first_seen xs seen
      else x # first_seen xs (insert (the (hash_key x)) seen))"

section \<open>Example worlds\<close>

text \<open>
  The end-to-end scenario of the specification: one subject, token \<open>T1\<close>, each data
  request answered with \<open>{"m": id}\<close>, on 2023-11-14 (UTC day 19675). The answer to the
  measurement search (\<open>found\<close>) and the meter list (\<open>meters\<close>) are parameters; the request
  for a meter \<open>X\<close> fails with status 500.
\<close>

definition ok_json :: "json \<Rightarrow> exn + response" where
  "ok_json j = Inr \<lparr>status_code = 200, json_body = Some j\<rparr>"

definition meter_list_AAB :: json where
  "meter_list_AAB =
     JObj [(''meters'', JList [JObj [(''id'', JStr ''A'')], JObj [(''id'', JStr ''A'')],
                               JObj [(''id'', JStr ''B'')]])]"

fun demo_answers :: "json \<Rightarrow> json \<Rightarrow> request \<Rightarrow> exn + response" where
  "demo_answers found meters SubjectsReq = ok_json (JObj [(''result'', JList [JObj [(''id'', JStr ''s1'')]])])"
| "demo_answers found meters (MeasurementsReq sids d n) = ok_json (JObj [(''result'', found)])"
| "demo_answers found meters TokenReq = ok_json (JObj [(''token'', JStr ''T1'')])"
| "demo_answers found meters (MetersReq token) = ok_json meters"
| "demo_answers found meters (DataReq token meter_id d) =
     (if meter_id = JStr ''X'' then Inr \<lparr>status_code = 500, json_body = None\<rparr>
      else ok_json (JObj [(''m'', meter_id)]))"
| "demo_answers found meters (ForwardReq data) = ok_json JNull"

definition demo_world :: "json \<Rightarrow> json \<Rightarrow> world" where
  "demo_world found meters =
     \<lparr>respond = (\<lambda>tr q. demo_answers found meters q), clock = (\<lambda>tr. 1700000000)\<rparr>"

definition meter_list_mixed :: json where
  "meter_list_mixed =
     JObj [(''meters'', JList [JInt 5, JObj [(''name'', JStr ''A'')], JObj [(''id'', JStr ''B'')]])]"

definition meter_list_AXB :: json where
  "meter_list_AXB =
     JObj [(''meters'', JList [JObj [(''id'', JStr ''A'')], JObj [(''id'', JStr ''X'')],
                               JObj [(''id'', JStr ''B'')]])]"

text \<open>A world whose project has no subject, and whose measurement search finds one entry.\<close>

definition no_subjects_world :: world where
  "no_subjects_world =
     \<lparr>respond = (\<lambda>tr q. case q of
                    SubjectsReq \<Rightarrow> ok_json (JObj [(''result'', JList [])])
                  | _ \<Rightarrow> demo_answers (JList [JInt 7]) meter_list_AAB q),
      clock = (\<lambda>tr. 1700000000)\<rparr>"




text \<open>A request for the meter list.\<close>

fun is_meters_request :: "event \<Rightarrow> bool" where
  "is_meters_request (Req (MetersReq token)) = True"
| "is_meters_request _ = False"

text \<open>
  The event \<open>e\<close>, occurring after history \<open>pre\<close>, is a request for the meter list whose
  answer is not an object with a \<open>meters\<close> list.
\<close>

fun meters_mismatch :: "world \<Rightarrow> event list \<Rightarrow> event \<Rightarrow> bool" where
  "meters_mismatch w pre (Req (MetersReq token)) =
     (case respond w pre (MetersReq token) of
        Inl e \<Rightarrow> False
      | Inr r \<Rightarrow> meters_field (json_body r) = None)"
| "meters_mismatch w pre _ = False"

fun has_mismatch :: "world \<Rightarrow> event list \<Rightarrow> event list \<Rightarrow> bool" where
  "has_mismatch w pre [] = False"
| "has_mismatch w pre (e # es) =
     (meters_mismatch w pre e \<or> has_mismatch w (pre @ [e]) es)"

text \<open>After the first meter list of the wrong shape, no request at all follows: only log lines.\<close>

fun aborts_after_mismatch :: "world \<Rightarrow> event list \<Rightarrow> event list \<Rightarrow> bool" where
  "aborts_after_mismatch w pre [] = True"
| "aborts_after_mismatch w pre (e # es) =
     (if meters_mismatch w pre e then list_all is_log es
      else aborts_after_mismatch w (pre @ [e]) es)"

text \<open>
  The counterpart of \<open>settled\<close> for a meter list of the wrong shape: nothing but log lines
  after it, and an exception as the outcome when there was one.
\<close>

definition rejected :: "world \<Rightarrow> event list \<Rightarrow> bool \<Rightarrow> event list \<Rightarrow> bool" where
  "rejected w tr raised ext =
     (aborts_after_mismatch w tr ext \<and> (has_mismatch w tr ext \<longrightarrow> raised))"

section \<open>The meter enumerator\<close>

subsection \<open>Deduplication\<close>

lemma dedup_first_seen:
  "dedup xs seen acc = Inr ys \<Longrightarrow> ys = acc @ first_seen xs seen"
proof (induction xs arbitrary: seen acc)
  case Nil
  then show ?case by simp
next
  case (Cons x xs)
  from Cons.prems obtain k where k: "hash_key x = Some k"
    by (auto split: option.splits)
  show ?case
  proof (cases "k \<in> seen")
    case True
    with Cons.prems k have "dedup xs seen acc = Inr ys" by simp
    from Cons.IH[OF this] True k show ?thesis by simp
  next
    case False
    with Cons.prems k have "dedup xs (insert k seen) (acc @ [x]) = Inr ys" by simp
    from Cons.IH[OF this] False k show ?thesis by simp
  qed
qed

lemma dedup_hashable:
  "dedup xs seen acc = Inr ys \<Longrightarrow> x \<in> set xs \<Longrightarrow> hash_key x \<noteq> None"
  by (induction xs arbitrary: seen acc) (auto split: option.splits if_splits)

lemma dedup_total:
  "\<forall>x\<in>set xs. hash_key x \<noteq> None \<Longrightarrow> \<exists>ys. dedup xs seen acc = Inr ys"
  by (induction xs arbitrary: seen acc) (auto split: option.splits if_splits)

lemma first_seen_keys:
  "x \<in> set (first_seen xs seen) \<Longrightarrow> the (hash_key x) \<notin> seen"
  by (induction xs arbitrary: seen) (auto split: if_splits)

lemma first_seen_subset:
  "set (first_seen xs seen) \<subseteq> set xs"
  by (induction xs arbitrary: seen) (auto split: if_splits)

lemma first_seen_distinct:
  "distinct (map (\<lambda>x. the (hash_key x)) (first_seen xs seen))"
proof (induction xs arbitrary: seen)
  case Nil
  then show ?case by simp
next
  case (Cons x xs)
  have "the (hash_key x) \<notin> (\<lambda>y. the (hash_key y)) ` set (first_seen xs (insert (the (hash_key x)) seen))"
  proof
    assume "the (hash_key x) \<in> (\<lambda>y. the (hash_key y)) ` set (first_seen xs (insert (the (hash_key x)) seen))"
    then obtain y where y: "y \<in> set (first_seen xs (insert (the (hash_key x)) seen))"
      and e: "the (hash_key x) = the (hash_key y)" by auto
    from first_seen_keys[OF y] e show False by simp
  qed
  with Cons show ?case by simp
qed

lemma first_seen_index:
  "first_seen xs seen =
     map ((!) xs) (filter (\<lambda>i. the (hash_key (xs ! i)) \<notin> seen \<and>
                           (\<forall>j<i. the (hash_key (xs ! j)) \<noteq> the (hash_key (xs ! i)))) [0..<length xs])"
proof (induction xs arbitrary: seen)
  case Nil
  then show ?case by simp
next
  case (Cons x xs)
  have up: "[0..<length (x # xs)] = 0 # map Suc [0..<length xs]"
    by (simp add: upt_conv_Cons map_Suc_upt del: upt_Suc)
  show ?case
  proof (cases "the (hash_key x) \<in> seen")
    case True
    have "first_seen (x # xs) seen = first_seen xs seen" using True by simp
    also have "\<dots> = map ((!) xs) (filter (\<lambda>i. the (hash_key (xs ! i)) \<notin> seen \<and>
                           (\<forall>j<i. the (hash_key (xs ! j)) \<noteq> the (hash_key (xs ! i)))) [0..<length xs])"
      by (rule Cons.IH)
    also have "\<dots> = map ((!) (x # xs)) (filter (\<lambda>i. the (hash_key ((x # xs) ! i)) \<notin> seen \<and>
                           (\<forall>j<i. the (hash_key ((x # xs) ! j)) \<noteq> the (hash_key ((x # xs) ! i)))) [0..<length (x # xs)])"
    proof -
      have eq: "\<And>i. (the (hash_key (xs ! i)) \<notin> seen \<and> the (hash_key x) \<noteq> the (hash_key (xs ! i)) \<and>
                  (\<forall>j<i. the (hash_key (xs ! j)) \<noteq> the (hash_key (xs ! i)))) =
                (the (hash_key (xs ! i)) \<notin> seen \<and>
                  (\<forall>j<i. the (hash_key (xs ! j)) \<noteq> the (hash_key (xs ! i))))"
        using True by auto
      show ?thesis unfolding up using True
        by (simp add: filter_map o_def All_less_Suc2 eq)
    qed
    finally show ?thesis .
  next
    case False
    have "first_seen (x # xs) seen = x # first_seen xs (insert (the (hash_key x)) seen)"
      using False by simp
    also have "first_seen xs (insert (the (hash_key x)) seen) =
        map ((!) xs) (filter (\<lambda>i. the (hash_key (xs ! i)) \<notin> insert (the (hash_key x)) seen \<and>
                           (\<forall>j<i. the (hash_key (xs ! j)) \<noteq> the (hash_key (xs ! i)))) [0..<length xs])"
      by (rule Cons.IH)
    also have "x # \<dots> = map ((!) (x # xs)) (filter (\<lambda>i. the (hash_key ((x # xs) ! i)) \<notin> seen \<and>
                           (\<forall>j<i. the (hash_key ((x # xs) ! j)) \<noteq> the (hash_key ((x # xs) ! i)))) [0..<length (x # xs)])"
    proof -
      have eq: "\<And>i. (the (hash_key (xs ! i)) \<notin> seen \<and> the (hash_key x) \<noteq> the (hash_key (xs ! i)) \<and>
                  (\<forall>j<i. the (hash_key (xs ! j)) \<noteq> the (hash_key (xs ! i)))) =
                (the (hash_key (xs ! i)) \<noteq> the (hash_key x) \<and> the (hash_key (xs ! i)) \<notin> seen \<and>
                  (\<forall>j<i. the (hash_key (xs ! j)) \<noteq> the (hash_key (xs ! i))))"
        by auto
      show ?thesis unfolding up using False
        by (simp add: filter_map o_def All_less_Suc2 eq)
    qed
    finally show ?thesis .
  qed
qed

lemma parse_meters_Inr:
  "parse_meters r = Inr ids \<Longrightarrow>
     \<exists>ms. meters_field (json_body r) = Some ms \<and> dedup (meter_ids ms) {} [] = Inr ids"
  by (auto simp: parse_meters_def split: option.splits json.splits)

lemma dedup_result:
  assumes "dedup xs {} [] = Inr ids"
  shows "distinct (map hash_key ids)"
    and "ids = map ((!) xs) (filter (\<lambda>i. \<forall>j<i. hash_key (xs ! j) \<noteq> hash_key (xs ! i)) [0..<length xs])"
proof -
  have h: "\<And>x. x \<in> set xs \<Longrightarrow> hash_key x \<noteq> None"
    using dedup_hashable[OF assms] .
  have ids: "ids = first_seen xs {}" using dedup_first_seen[OF assms] by simp
  have inj: "\<And>x y. x \<in> set xs \<Longrightarrow> y \<in> set xs \<Longrightarrow>
      (the (hash_key x) = the (hash_key y)) = (hash_key x = hash_key y)"
    using h by (metis option.collapse)
  have "distinct (map (\<lambda>x. the (hash_key x)) ids)"
    unfolding ids by (rule first_seen_distinct)
  then have "distinct (map the (map hash_key ids))" by (simp add: o_def)
  then show "distinct (map hash_key ids)"
    by (auto simp: distinct_map o_def inj_on_def)
  have "filter (\<lambda>i. the (hash_key (xs ! i)) \<notin> {} \<and>
                 (\<forall>j<i. the (hash_key (xs ! j)) \<noteq> the (hash_key (xs ! i)))) [0..<length xs] =
        filter (\<lambda>i. \<forall>j<i. hash_key (xs ! j) \<noteq> hash_key (xs ! i)) [0..<length xs]"
    by (rule filter_cong) (auto simp: inj)
  then show "ids = map ((!) xs) (filter (\<lambda>i. \<forall>j<i. hash_key (xs ! j) \<noteq> hash_key (xs ! i)) [0..<length xs])"
    unfolding ids first_seen_index[of xs "{}"] by simp
qed

text \<open>
  Claim C5. Whatever the meter list holds, duplicates included, the identifiers the Meter
  Enumerator produces are pairwise different (as Python compares them) and are exactly
  the identifiers of the list at the positions where an identifier occurs for the first
  time, in the order of the list.
\<close>

theorem meter_ids_unique_first_seen:
  assumes "parse_meters r = Inr ids"
  shows "\<exists>ms. meters_field (json_body r) = Some ms \<and>
           distinct (map hash_key ids) \<and> distinct ids \<and>
           ids = map ((!) (meter_ids ms))
                   (filter (\<lambda>i. \<forall>j<i. hash_key (meter_ids ms ! j) \<noteq> hash_key (meter_ids ms ! i))
                      [0..<length (meter_ids ms)])"
proof -
  from parse_meters_Inr[OF assms] obtain ms
    where ms: "meters_field (json_body r) = Some ms" and d: "dedup (meter_ids ms) {} [] = Inr ids"
    by blast
  from dedup_result[OF d] have "distinct (map hash_key ids)"
    and "ids = map ((!) (meter_ids ms))
                   (filter (\<lambda>i. \<forall>j<i. hash_key (meter_ids ms ! j) \<noteq> hash_key (meter_ids ms ! i))
                      [0..<length (meter_ids ms)])"
    by simp_all
  moreover from \<open>distinct (map hash_key ids)\<close> have "distinct ids"
    by (simp add: distinct_map)
  ultimately show ?thesis using ms by blast
qed

lemma demo_parse: "parse_meters \<lparr>status_code = 200, json_body = Some meter_list_AAB\<rparr> = Inr [JStr ''A'', JStr ''B'']"
  by (simp add: parse_meters_def meter_list_AAB_def meter_ids_def List.map_filter_simps)

theorem meter_ids_unique_first_seen_witness:
  "\<exists>ms. meters_field (json_body \<lparr>status_code = 200, json_body = Some meter_list_AAB\<rparr>) = Some ms \<and>
         distinct (map hash_key [JStr ''A'', JStr ''B'']) \<and> distinct [JStr ''A'', JStr ''B''] \<and>
         [JStr ''A'', JStr ''B''] = map ((!) (meter_ids ms))
                   (filter (\<lambda>i. \<forall>j<i. hash_key (meter_ids ms ! j) \<noteq> hash_key (meter_ids ms ! i))
                      [0..<length (meter_ids ms)])"
  by (rule meter_ids_unique_first_seen[OF demo_parse])

subsection \<open>The shape of the meter list\<close>


lemma is_meter_record_iff: "is_meter_record m = (meter_id_of m \<noteq> None)"
  by (cases m) (auto simp: map_of_eq_None_iff)

lemma meter_ids_filter: "meter_ids (filter is_meter_record ms) = meter_ids ms"
  by (induction ms) (auto simp: meter_ids_def List.map_filter_simps is_meter_record_iff)

lemma meter_ids_no_records: "\<forall>m\<in>set ms. \<not> is_meter_record m \<Longrightarrow> meter_ids ms = []"
  by (induction ms) (auto simp: meter_ids_def List.map_filter_simps is_meter_record_iff)

lemma dedup_Inl: "dedup xs seen acc = Inl e \<Longrightarrow> e = TypeError"
  by (induction xs arbitrary: seen acc) (auto split: option.splits if_splits)

lemma parse_meters_shape:
  "meters_field (json_body r) = Some ms \<Longrightarrow> parse_meters r = dedup (meter_ids ms) {} []"
  by (cases "json_body r") (auto simp: parse_meters_def split: json.splits option.splits)

text \<open>
  Claim C9. When the response is an object with a \<open>meters\<close> list, the elements of the
  list that are not objects or have no key \<open>id\<close> are dropped: the result is the one for
  the list without them, no identifier comes from them, the format error is never
  raised, and a list of such elements only gives the empty enumeration.
\<close>

theorem malformed_meter_entries_dropped:
  assumes "meters_field (json_body r) = Some ms"
  shows "parse_meters r = dedup (meter_ids (filter is_meter_record ms)) {} [] \<and>
         meter_ids ms = meter_ids (filter is_meter_record ms) \<and>
         (\<forall>s. parse_meters r \<noteq> Inl (ValueError s)) \<and>
         ((\<forall>m\<in>set ms. \<not> is_meter_record m) \<longrightarrow> parse_meters r = Inr []) \<and>
         ((\<forall>v\<in>set (meter_ids ms). hash_key v \<noteq> None) \<longrightarrow> (\<exists>ids. parse_meters r = Inr ids))"
proof -
  have p: "parse_meters r = dedup (meter_ids ms) {} []"
    using assms by (rule parse_meters_shape)
  have a: "parse_meters r = dedup (meter_ids (filter is_meter_record ms)) {} []"
    by (simp add: p meter_ids_filter)
  have c: "\<forall>s. parse_meters r \<noteq> Inl (ValueError s)"
    using dedup_Inl[of "meter_ids ms" "{}" "[]"] by (auto simp: p)
  have d: "(\<forall>m\<in>set ms. \<not> is_meter_record m) \<longrightarrow> parse_meters r = Inr []"
    by (auto simp: p meter_ids_no_records)
  have e: "(\<forall>v\<in>set (meter_ids ms). hash_key v \<noteq> None) \<longrightarrow> (\<exists>ids. parse_meters r = Inr ids)"
    using dedup_total[of "meter_ids ms" "{}" "[]"] by (simp add: p)
  from a c d e show ?thesis by (simp add: meter_ids_filter)
qed


theorem malformed_meter_entries_dropped_witness:
  "meters_field (json_body \<lparr>status_code = 200, json_body = Some meter_list_mixed\<rparr>) =
     Some [JInt 5, JObj [(''name'', JStr ''A'')], JObj [(''id'', JStr ''B'')]] \<and>
   parse_meters \<lparr>status_code = 200, json_body = Some meter_list_mixed\<rparr> = Inr [JStr ''B''] \<and>
   meter_ids [JInt 5, JObj [(''name'', JStr ''A'')], JObj [(''id'', JStr ''B'')]] = [JStr ''B'']"
  using malformed_meter_entries_dropped[of "\<lparr>status_code = 200, json_body = Some meter_list_mixed\<rparr>"
      "[JInt 5, JObj [(''name'', JStr ''A'')], JObj [(''id'', JStr ''B'')]]"]
  by (simp add: meter_list_mixed_def meter_ids_def List.map_filter_simps)

lemma list_meters_fails:
  assumes "respond w tr (MetersReq token) = Inr r" "meters_field (json_body r) = None"
  shows "\<exists>e ext. list_meters w token tr = (Inl e, tr @ ext) \<and> (\<forall>x\<in>set ext. \<not> is_data_request x)"
proof -
  have "\<exists>e. parse_meters r = Inl e"
    using assms(2) by (cases "json_body r") (auto simp: parse_meters_def split: json.splits option.splits)
  then obtain e where e: "parse_meters r = Inl e" ..
  show ?thesis
  proof (cases "raise_for_status r")
    case (Inl e')
    then have "list_meters w token tr = (Inl e', tr @ [Req (MetersReq token)])"
      by (simp add: list_meters_def assms(1))
    then show ?thesis by simp
  next
    case (Inr u)
    then have "list_meters w token tr =
        (Inl e, tr @ [Req (MetersReq token), Log (MsgMetersFailed (status_code r))])"
      by (simp add: list_meters_def assms(1) e)
    then show ?thesis by simp
  qed
qed

lemma fetch_fails_on_shape:
  "(parse_meters r = Inr ids \<longrightarrow> meters_field (json_body r) \<noteq> None) \<and>
   (respond w tr (MetersReq token) = Inr r \<and> meters_field (json_body r) = None \<longrightarrow>
      (\<exists>e ext. fetch_power_usage w token date_arg tr = (Inl e, tr @ ext) \<and>
               (\<forall>x\<in>set ext. \<not> is_data_request x)))"
proof (intro conjI impI)
  assume "parse_meters r = Inr ids"
  from parse_meters_Inr[OF this] show "meters_field (json_body r) \<noteq> None" by auto
next
  assume a: "respond w tr (MetersReq token) = Inr r \<and> meters_field (json_body r) = None"
  from a have a1: "respond w tr (MetersReq token) = Inr r"
    and a2: "meters_field (json_body r) = None" by simp_all
  from list_meters_fails[OF a1 a2] obtain e ext
    where l: "list_meters w token tr = (Inl e, tr @ ext)" and n: "\<forall>x\<in>set ext. \<not> is_data_request x"
    by blast
  show "\<exists>e ext. fetch_power_usage w token date_arg tr = (Inl e, tr @ ext) \<and>
               (\<forall>x\<in>set ext. \<not> is_data_request x)"
  proof (cases "case date_arg of None \<Rightarrow> map_sum id utc_day (minus_days (clock w tr) 1) | Some d \<Rightarrow> Inr d")
    case (Inl e')
    then have "fetch_power_usage w token date_arg tr = (Inl e', tr @ [])"
      by (simp add: fetch_power_usage_def)
    then show ?thesis by force
  next
    case (Inr d)
    then have "fetch_power_usage w token date_arg tr = (Inl e, tr @ ext)"
      by (simp add: fetch_power_usage_def l)
    with n show ?thesis by blast
  qed
qed

theorem unrecorded_entries_accepted_counterexample:
  "fetch_power_usage (demo_world (JList []) (JObj [(''meters'', JList [JInt 5])])) (JStr ''T1'') None []
     = (Inr [], [Req (MetersReq (JStr ''T1''))]) \<and>
   \<not> list_all is_meter_record [JInt 5]"
  by (simp add: fetch_power_usage_def demo_world_def ok_json_def list_meters_def raise_for_status_def
      parse_meters_def meter_ids_def List.map_filter_simps minus_days_def min_secs_def max_secs_def)

section \<open>The reading fetcher\<close>

lemma not_failed_response:
  assumes "\<not> failed_response a"
  obtains r where "a = Inr r" "parse_data r = Inr (payload_of a)"
proof (cases a)
  case (Inl e)
  with assms show ?thesis by simp
next
  case (Inr r)
  with assms have "parse_data r = Inr (payload_of a)"
    by (auto simp: parse_data_def raise_for_status_def)
  with Inr show ?thesis by (rule that)
qed

lemma fetch_each_all_ok:
  assumes "\<forall>a\<in>set (responses w tr (map (\<lambda>m. DataReq token m d) mids)). \<not> failed_response a"
  shows "fetch_each w token d mids acc tr =
           (Inr (acc @ map payload_of (responses w tr (map (\<lambda>m. DataReq token m d) mids))),
            tr @ map (\<lambda>m. Req (DataReq token m d)) mids)"
  using assms
proof (induction mids arbitrary: acc tr)
  case Nil
  then show ?case by simp
next
  case (Cons m mids)
  from Cons.prems have "\<not> failed_response (respond w tr (DataReq token m d))" by simp
  then obtain r where r: "respond w tr (DataReq token m d) = Inr r"
    and p: "parse_data r = Inr (payload_of (respond w tr (DataReq token m d)))"
    by (rule not_failed_response)
  from Cons.prems have
    "\<forall>a\<in>set (responses w (tr @ [Req (DataReq token m d)]) (map (\<lambda>m. DataReq token m d) mids)).
        \<not> failed_response a"
    by simp
  from Cons.IH[OF this] r p show ?case by simp
qed

text \<open>
  Claim C6. When every one of the per-meter requests succeeds, the fetcher issues exactly
  one request per identifier, in the order of the identifiers, and returns the parsed
  bodies of the answers in the same order: as many payloads as identifiers.
\<close>

theorem all_meters_fetched_in_order:
  assumes "\<forall>a\<in>set (responses w tr (map (\<lambda>m. DataReq token m d) mids)). \<not> failed_response a"
  shows "fetch_each w token d mids [] tr =
           (Inr (map payload_of (responses w tr (map (\<lambda>m. DataReq token m d) mids))),
            tr @ map (\<lambda>m. Req (DataReq token m d)) mids) \<and>
         length (map payload_of (responses w tr (map (\<lambda>m. DataReq token m d) mids))) = length mids"
proof -
  have "length (responses w tr qs) = length qs" for qs
    by (induction qs arbitrary: tr) simp_all
  with fetch_each_all_ok[OF assms, of "[]"] show ?thesis by simp
qed

theorem all_meters_fetched_in_order_witness:
  "fetch_each (demo_world (JList []) meter_list_AAB) (JStr ''T1'') 19674 [JStr ''A'', JStr ''B''] [] []
     = (Inr [JObj [(''m'', JStr ''A'')], JObj [(''m'', JStr ''B'')]],
        [Req (DataReq (JStr ''T1'') (JStr ''A'') 19674), Req (DataReq (JStr ''T1'') (JStr ''B'') 19674)])"
  using all_meters_fetched_in_order[of "demo_world (JList []) meter_list_AAB" "[]" "JStr ''T1''" 19674
      "[JStr ''A'', JStr ''B'']"]
  by (simp add: demo_world_def ok_json_def)

section \<open>The orchestrator\<close>

subsection \<open>The idempotency gate\<close>

lemma check_run_yesterday_returns:
  assumes "check_run_yesterday w tr = (Inr b, tr1)"
  shows "\<exists>sids day. tr1 = tr @ [Req SubjectsReq, Req (MeasurementsReq sids day 1)]"
  using assms
  by (auto simp: check_run_yesterday_def split: sum.splits)

text \<open>
  Claim C7. When the idempotency check returns true, whatever the backfill day-count,
  the run consists of the two calls of the check and the skip message: no call of the
  authenticator, the enumerator, the fetcher or the forwarder, and \<open>main\<close> returns
  normally.
\<close>

theorem skip_when_already_submitted:
  assumes "fst (check_run_yesterday w tr) = Inr True"
  shows "\<exists>sids day.
           main w backfill_days tr =
             (Inr (), tr @ [Req SubjectsReq, Req (MeasurementsReq sids day 1), Log MsgSkip]) \<and>
           \<not> list_ex is_pipeline_call [Req SubjectsReq, Req (MeasurementsReq sids day 1), Log MsgSkip]"
proof -
  obtain tr1 where c: "check_run_yesterday w tr = (Inr True, tr1)"
    using assms by (cases "check_run_yesterday w tr") simp
  from check_run_yesterday_returns[OF c] obtain sids day
    where tr1: "tr1 = tr @ [Req SubjectsReq, Req (MeasurementsReq sids day 1)]" by blast
  have "main w backfill_days tr = (Inr (), tr1 @ [Log MsgSkip])"
    by (simp add: main_def main_body_def c)
  with tr1 show ?thesis by simp
qed

lemma demo_check_true:
  "check_run_yesterday (demo_world (JList [JInt 1]) meter_list_AAB) [] =
     (Inr True, [Req SubjectsReq, Req (MeasurementsReq [JStr ''s1''] 19674 1)])"
  by (simp add: check_run_yesterday_def demo_world_def ok_json_def subjects_of_def
      raise_for_status_def minus_days_def min_secs_def max_secs_def utc_day_def has_result_def)

theorem skip_when_already_submitted_witness:
  "fst (check_run_yesterday (demo_world (JList [JInt 1]) meter_list_AAB) []) = Inr True \<and>
   (\<exists>sids day. main (demo_world (JList [JInt 1]) meter_list_AAB) 2 [] =
     (Inr (), [Req SubjectsReq, Req (MeasurementsReq sids day 1), Log MsgSkip]))"
  using skip_when_already_submitted[of "demo_world (JList [JInt 1]) meter_list_AAB" "[]" 2]
  by (simp add: demo_check_true)

subsection \<open>The top-level handler\<close>

text \<open>
  Claim C8. Whatever happens in the body of \<open>main\<close>, \<open>main\<close> returns normally and the
  process exits with status 0; when a component raised \<open>e\<close>, the last thing the run did
  is to print the error message for \<open>e\<close>.
\<close>

theorem errors_caught_at_top_level:
  "fst (main w backfill_days tr) = Inr () \<and>
   exit_status w backfill_days = 0 \<and>
   (\<forall>e tr1. main_body w backfill_days tr = (Inl e, tr1) \<longrightarrow>
      main w backfill_days tr = (Inr (), tr1 @ [Log (MsgError e)])) \<and>
   (\<forall>e tr1. check_run_yesterday w tr = (Inl e, tr1) \<longrightarrow>
      main w backfill_days tr = (Inr (), tr1 @ [Log (MsgError e)]))"
proof -
  have a: "fst (main w backfill_days tr') = Inr ()" for tr'
    by (cases "main_body w backfill_days tr'") (auto simp: main_def split: sum.splits)
  have b: "exit_status w backfill_days = 0"
    using a[of "[]"] by (simp add: exit_status_def)
  have c: "\<forall>e tr1. main_body w backfill_days tr = (Inl e, tr1) \<longrightarrow>
      main w backfill_days tr = (Inr (), tr1 @ [Log (MsgError e)])"
    by (simp add: main_def)
  have d: "\<forall>e tr1. check_run_yesterday w tr = (Inl e, tr1) \<longrightarrow>
      main w backfill_days tr = (Inr (), tr1 @ [Log (MsgError e)])"
    by (simp add: main_def main_body_def)
  from a b c d show ?thesis by blast
qed

lemma demo_failing_body:
  "main_body (demo_world (JList []) meter_list_AXB) 0 [] =
     (Inl (HTTPError 500),
      [Req SubjectsReq, Req (MeasurementsReq [JStr ''s1''] 19674 1),
       Log MsgProceed, Log MsgAuthenticating, Req TokenReq,
       Log MsgFetchingYesterday, Req (MetersReq (JStr ''T1'')),
       Req (DataReq (JStr ''T1'') (JStr ''A'') 19674),
       Req (DataReq (JStr ''T1'') (JStr ''X'') 19674),
       Log (MsgMeterFailed (JStr ''X'') 500)])"
  by (simp add: main_body_def check_run_yesterday_def demo_world_def ok_json_def subjects_of_def
      raise_for_status_def minus_days_def min_secs_def max_secs_def utc_day_def has_result_def
      get_access_token_def token_of_def fetch_power_usage_def list_meters_def parse_meters_def
      meter_list_AXB_def meter_ids_def List.map_filter_simps parse_data_def)

theorem errors_caught_at_top_level_witness:
  "main (demo_world (JList []) meter_list_AXB) 0 [] =
     (Inr (),
      [Req SubjectsReq, Req (MeasurementsReq [JStr ''s1''] 19674 1),
       Log MsgProceed, Log MsgAuthenticating, Req TokenReq,
       Log MsgFetchingYesterday, Req (MetersReq (JStr ''T1'')),
       Req (DataReq (JStr ''T1'') (JStr ''A'') 19674),
       Req (DataReq (JStr ''T1'') (JStr ''X'') 19674),
       Log (MsgMeterFailed (JStr ''X'') 500), Log (MsgError (HTTPError 500))]) \<and>
   exit_status (demo_world (JList []) meter_list_AXB) 0 = 0"
  using errors_caught_at_top_level[of "demo_world (JList []) meter_list_AXB" 0 "[]"]
  by (simp add: demo_failing_body)

subsection \<open>The idempotency checker\<close>

lemma has_result_Inr:
  assumes "has_result r = Inr b"
  shows "\<exists>kvs. json_body r = Some (JObj kvs) \<and>
           b = (case map_of kvs ''result'' of None \<Rightarrow> False | Some v \<Rightarrow> truthy v)"
  using assms
  by (auto simp: has_result_def split: sum.splits option.splits json.splits)

lemma has_result_list:
  assumes "raise_for_status r = Inr ()" "json_body r = Some (JObj kvs)"
    "map_of kvs ''result'' = Some (JList xs)"
  shows "has_result r = Inr (xs \<noteq> [])"
  using assms by (simp add: has_result_def)

lemma check_run_yesterday_sound:
  assumes "check_run_yesterday w tr = (Inr b, tr1)"
  shows "\<exists>sids day r2 kvs.
           tr1 = tr @ [Req SubjectsReq, Req (MeasurementsReq sids day 1)] \<and>
           respond w (tr @ [Req SubjectsReq]) (MeasurementsReq sids day 1) = Inr r2 \<and>
           json_body r2 = Some (JObj kvs) \<and>
           b = (case map_of kvs ''result'' of None \<Rightarrow> False | Some v \<Rightarrow> truthy v)"
proof -
  from assms obtain resp sids t resp2 where
    "respond w tr SubjectsReq = Inr resp" "subjects_of resp = Inr sids"
    "minus_days (clock w (tr @ [Req SubjectsReq])) 1 = Inr t"
    and r2: "respond w (tr @ [Req SubjectsReq]) (MeasurementsReq sids (utc_day t) 1) = Inr resp2"
    and h: "has_result resp2 = Inr b"
    and t: "tr1 = tr @ [Req SubjectsReq, Req (MeasurementsReq sids (utc_day t) 1)]"
    by (auto simp: check_run_yesterday_def split: sum.splits)
  from has_result_Inr[OF h] r2 t show ?thesis by blast
qed

lemma check_run_yesterday_complete:
  assumes "respond w tr SubjectsReq = Inr r1" "subjects_of r1 = Inr sids"
    "minus_days (clock w (tr @ [Req SubjectsReq])) 1 = Inr t"
    "respond w (tr @ [Req SubjectsReq]) (MeasurementsReq sids (utc_day t) 1) = Inr r2"
    "raise_for_status r2 = Inr ()" "json_body r2 = Some (JObj kvs)"
    "map_of kvs ''result'' = Some (JList xs)"
  shows "check_run_yesterday w tr =
           (Inr (xs \<noteq> []), tr @ [Req SubjectsReq, Req (MeasurementsReq sids (utc_day t) 1)])"
  using assms(1-4) has_result_list[OF assms(5-7)]
  by (simp add: check_run_yesterday_def)

lemma subjects_of_empty:
  assumes "raise_for_status r1 = Inr ()" "json_body r1 = Some (JObj kvs)"
    "map_of kvs ''result'' = Some (JList []) \<or> map_of kvs ''result'' = None"
  shows "subjects_of r1 = Inr []"
  using assms by (auto simp: subjects_of_def)

text \<open>
  Claim C2. Whenever the checker returns, it has made both calls and its value is the
  truth value of the \<open>result\<close> field of the second answer: true exactly when a result
  list is non-empty. For every pair of successful answers, the second carrying a result
  list, it returns that value. A first answer with an empty subject list yields the empty
  list of subject ids, with which the second call is made as with any other.
\<close>

theorem check_true_iff_measurements_found:
  "(check_run_yesterday w tr = (Inr b, tr1) \<longrightarrow>
      (\<exists>sids day r2 kvs.
          tr1 = tr @ [Req SubjectsReq, Req (MeasurementsReq sids day 1)] \<and>
          respond w (tr @ [Req SubjectsReq]) (MeasurementsReq sids day 1) = Inr r2 \<and>
          json_body r2 = Some (JObj kvs) \<and>
          b = (case map_of kvs ''result'' of None \<Rightarrow> False | Some v \<Rightarrow> truthy v) \<and>
          (\<forall>xs. map_of kvs ''result'' = Some (JList xs) \<longrightarrow> b = (xs \<noteq> [])))) \<and>
   (respond w tr SubjectsReq = Inr r1 \<and> subjects_of r1 = Inr ids \<and>
    minus_days (clock w (tr @ [Req SubjectsReq])) 1 = Inr t \<and>
    respond w (tr @ [Req SubjectsReq]) (MeasurementsReq ids (utc_day t) 1) = Inr resp2 \<and>
    raise_for_status resp2 = Inr () \<and> json_body resp2 = Some (JObj kvs2) \<and>
    map_of kvs2 ''result'' = Some (JList found) \<longrightarrow>
      check_run_yesterday w tr =
        (Inr (found \<noteq> []), tr @ [Req SubjectsReq, Req (MeasurementsReq ids (utc_day t) 1)])) \<and>
   (raise_for_status r1 = Inr () \<and> json_body r1 = Some (JObj kvs1) \<and>
    map_of kvs1 ''result'' = Some (JList []) \<longrightarrow> subjects_of r1 = Inr [])"
proof (intro conjI impI)
  assume a: "check_run_yesterday w tr = (Inr b, tr1)"
  from check_run_yesterday_sound[OF a] obtain sids day r2 kvs where
    s: "tr1 = tr @ [Req SubjectsReq, Req (MeasurementsReq sids day 1)]"
       "respond w (tr @ [Req SubjectsReq]) (MeasurementsReq sids day 1) = Inr r2"
       "json_body r2 = Some (JObj kvs)"
       "b = (case map_of kvs ''result'' of None \<Rightarrow> False | Some v \<Rightarrow> truthy v)"
    by blast
  from s(4) have "\<forall>xs. map_of kvs ''result'' = Some (JList xs) \<longrightarrow> b = (xs \<noteq> [])"
    by simp
  with s show "\<exists>sids day r2 kvs.
          tr1 = tr @ [Req SubjectsReq, Req (MeasurementsReq sids day 1)] \<and>
          respond w (tr @ [Req SubjectsReq]) (MeasurementsReq sids day 1) = Inr r2 \<and>
          json_body r2 = Some (JObj kvs) \<and>
          b = (case map_of kvs ''result'' of None \<Rightarrow> False | Some v \<Rightarrow> truthy v) \<and>
          (\<forall>xs. map_of kvs ''result'' = Some (JList xs) \<longrightarrow> b = (xs \<noteq> []))"
    by blast
next
  assume "respond w tr SubjectsReq = Inr r1 \<and> subjects_of r1 = Inr ids \<and>
    minus_days (clock w (tr @ [Req SubjectsReq])) 1 = Inr t \<and>
    respond w (tr @ [Req SubjectsReq]) (MeasurementsReq ids (utc_day t) 1) = Inr resp2 \<and>
    raise_for_status resp2 = Inr () \<and> json_body resp2 = Some (JObj kvs2) \<and>
    map_of kvs2 ''result'' = Some (JList found)"
  then show "check_run_yesterday w tr =
        (Inr (found \<noteq> []), tr @ [Req SubjectsReq, Req (MeasurementsReq ids (utc_day t) 1)])"
    using check_run_yesterday_complete[of w tr r1 ids t resp2 kvs2 found] by blast
next
  assume "raise_for_status r1 = Inr () \<and> json_body r1 = Some (JObj kvs1) \<and>
    map_of kvs1 ''result'' = Some (JList [])"
  then show "subjects_of r1 = Inr []"
    using subjects_of_empty[of r1 kvs1] by blast
qed

theorem check_true_iff_measurements_found_witness:
  "check_run_yesterday no_subjects_world [] =
     (Inr True, [Req SubjectsReq, Req (MeasurementsReq [] 19674 1)]) \<and>
   subjects_of \<lparr>status_code = 200, json_body = Some (JObj [(''result'', JList [])])\<rparr> = Inr []"
  using check_true_iff_measurements_found[of no_subjects_world "[]" True
      "[Req SubjectsReq, Req (MeasurementsReq [] 19674 1)]"
      "\<lparr>status_code = 200, json_body = Some (JObj [(''result'', JList [])])\<rparr>" "[]" 1699913600
      "\<lparr>status_code = 200, json_body = Some (JObj [(''result'', JList [JInt 7])])\<rparr>"
      "[(''result'', JList [JInt 7])]" "[JInt 7]" "[(''result'', JList [])]"]
  by (simp add: no_subjects_world_def ok_json_def raise_for_status_def minus_days_def
      min_secs_def max_secs_def utc_day_def)

section \<open>Fail-fast fetching\<close>

lemma logs_no_data_request: "list_all is_log b \<Longrightarrow> \<not> list_ex is_data_request b"
proof (induction b)
  case Nil
  then show ?case by simp
next
  case (Cons e b)
  then show ?case by (cases e) simp_all
qed

lemma no_data_request_no_failure:
  "\<not> list_ex is_data_request a \<Longrightarrow> \<not> has_data_failure w tr a"
proof (induction a arbitrary: tr)
  case Nil
  then show ?case by simp
next
  case (Cons e a)
  from Cons.prems have "\<not> is_data_request e" and "\<not> list_ex is_data_request a" by simp_all
  moreover from \<open>\<not> is_data_request e\<close> have "\<not> data_failure w tr e"
    by (cases "(w, tr, e)" rule: data_failure.cases) simp_all
  ultimately show ?case using Cons.IH by simp
qed

lemma no_failure_aborts:
  "\<not> has_data_failure w tr a \<Longrightarrow> aborts_after_failure w tr a"
  by (induction a arbitrary: tr) simp_all

lemma aborts_append:
  "\<not> has_data_failure w tr a \<Longrightarrow>
     aborts_after_failure w tr (a @ b) = aborts_after_failure w (tr @ a) b"
  by (induction a arbitrary: tr) simp_all

lemma failure_append:
  "\<not> has_data_failure w tr a \<Longrightarrow>
     has_data_failure w tr (a @ b) = has_data_failure w (tr @ a) b"
  by (induction a arbitrary: tr) simp_all

lemma aborts_append_logs:
  "has_data_failure w tr a \<Longrightarrow> aborts_after_failure w tr a \<Longrightarrow> list_all is_log b \<Longrightarrow>
     aborts_after_failure w tr (a @ b)"
  by (induction a arbitrary: tr) (auto split: if_splits)

lemma settled_no_data_request:
  "\<not> list_ex is_data_request a \<Longrightarrow> settled w tr raised a"
  by (simp add: settled_def no_data_request_no_failure no_failure_aborts)

lemma settled_logs: "list_all is_log a \<Longrightarrow> settled w tr raised a"
  by (simp add: settled_no_data_request logs_no_data_request)

lemma settled_seq:
  assumes "settled w tr False a" "settled w (tr @ a) raised b"
  shows "settled w tr raised (a @ b)"
proof -
  from assms(1) have n: "\<not> has_data_failure w tr a" by (simp add: settled_def)
  from assms(2) show ?thesis
    by (simp add: settled_def aborts_append[OF n] failure_append[OF n])
qed

lemma settled_then_logs:
  assumes "settled w tr raised a" "list_all is_log b"
  shows "settled w tr raised (a @ b)"
proof (cases "has_data_failure w tr a")
  case True
  with assms show ?thesis
    by (simp add: settled_def aborts_append_logs)
next
  case False
  have "settled w (tr @ a) raised b"
    using assms(2) by (rule settled_logs)
  then show ?thesis
    by (simp add: settled_def aborts_append[OF False] failure_append[OF False])
qed

lemma parse_data_failed: "isl (parse_data r) = failed_response (Inr r)"
  by (auto simp: parse_data_def raise_for_status_def split: option.splits)

lemma fetch_each_settled:
  "fetch_each w token d mids acc tr = (res, tr1) \<Longrightarrow>
     \<exists>ext. tr1 = tr @ ext \<and> settled w tr (isl res) ext"
proof (induction mids arbitrary: acc tr)
  case Nil
  then show ?case by (simp add: settled_def)
next
  case (Cons m mids)
  show ?case
  proof (cases "respond w tr (DataReq token m d)")
    case (Inl e)
    with Cons.prems have "tr1 = tr @ [Req (DataReq token m d)]" "res = Inl e" by simp_all
    with Inl show ?thesis by (simp add: settled_def)
  next
    case (Inr r)
    show ?thesis
    proof (cases "parse_data r")
      case (Inl e)
      with Inr Cons.prems have
        "tr1 = tr @ [Req (DataReq token m d), Log (MsgMeterFailed m (status_code r))]" "res = Inl e"
        by simp_all
      moreover from Inl have "failed_response (Inr r)"
        using parse_data_failed[of r] by simp
      ultimately show ?thesis using Inr by (simp add: settled_def)
    next
      case (Inr raw)
      with \<open>respond w tr (DataReq token m d) = Inr r\<close> Cons.prems have
        "fetch_each w token d mids (acc @ [raw]) (tr @ [Req (DataReq token m d)]) = (res, tr1)"
        by simp
      from Cons.IH[OF this] obtain ext where
        e: "tr1 = (tr @ [Req (DataReq token m d)]) @ ext"
        and s: "settled w (tr @ [Req (DataReq token m d)]) (isl res) ext" by blast
      from Inr have "\<not> failed_response (Inr r)"
        using parse_data_failed[of r] by simp
      then have "\<not> data_failure w tr (Req (DataReq token m d))"
        using \<open>respond w tr (DataReq token m d) = Inr r\<close> by simp
      with s have "settled w tr (isl res) (Req (DataReq token m d) # ext)"
        unfolding settled_def by simp
      with e show ?thesis by simp
    qed
  qed
qed

lemma list_meters_ext:
  "list_meters w token tr = (res, tr1) \<Longrightarrow>
     \<exists>ext. tr1 = tr @ ext \<and> \<not> list_ex is_data_request ext"
  by (auto simp: list_meters_def split: sum.splits)

lemma forward_ext:
  "forward_to_blockbax w data tr = (res, tr1) \<Longrightarrow>
     \<exists>ext. tr1 = tr @ ext \<and> \<not> list_ex is_data_request ext"
  by (auto simp: forward_to_blockbax_def split: sum.splits)

lemma get_access_token_ext:
  "get_access_token w tr = (res, tr1) \<Longrightarrow>
     \<exists>ext. tr1 = tr @ ext \<and> \<not> list_ex is_data_request ext"
  by (auto simp: get_access_token_def split: sum.splits)

lemma check_run_yesterday_trace:
  "check_run_yesterday w tr = (res, tr1) \<Longrightarrow>
     tr1 = tr @ [Req SubjectsReq] \<or>
     (\<exists>sids day. tr1 = tr @ [Req SubjectsReq, Req (MeasurementsReq sids day 1)])"
  by (auto simp: check_run_yesterday_def split: sum.splits)

lemma check_run_yesterday_ext:
  assumes "check_run_yesterday w tr = (res, tr1)"
  shows "\<exists>ext. tr1 = tr @ ext \<and> \<not> list_ex is_data_request ext"
proof -
  from check_run_yesterday_trace[OF assms] consider
    "tr1 = tr @ [Req SubjectsReq]"
    | sids day where "tr1 = tr @ [Req SubjectsReq, Req (MeasurementsReq sids day 1)]"
    by blast
  then show ?thesis
  proof cases
    case 1
    have "\<not> list_ex is_data_request [Req SubjectsReq]" by simp
    with 1 show ?thesis by blast
  next
    case 2
    have "\<not> list_ex is_data_request [Req SubjectsReq, Req (MeasurementsReq sids day 1)]" by simp
    with 2 show ?thesis by blast
  qed
qed

lemma fetch_power_usage_settled:
  assumes "fetch_power_usage w token date_arg tr = (res, tr1)"
  shows "\<exists>ext. tr1 = tr @ ext \<and> settled w tr (isl res) ext"
proof (cases "case date_arg of None \<Rightarrow> map_sum id utc_day (minus_days (clock w tr) 1)
                | Some d \<Rightarrow> Inr d")
  case (Inl e)
  with assms have "tr1 = tr @ []" by (simp add: fetch_power_usage_def)
  moreover have "settled w tr (isl res) []" by (simp add: settled_def)
  ultimately show ?thesis by blast
next
  case (Inr d)
  obtain r0 tr0 where l: "list_meters w token tr = (r0, tr0)"
    by (cases "list_meters w token tr")
  from list_meters_ext[OF l] obtain a where
    a: "tr0 = tr @ a" and na: "\<not> list_ex is_data_request a" by blast
  show ?thesis
  proof (cases r0)
    case (Inl e)
    with assms Inr l have "tr1 = tr0" by (simp add: fetch_power_usage_def)
    moreover have "settled w tr (isl res) a" using na by (rule settled_no_data_request)
    ultimately show ?thesis using a by blast
  next
    case (Inr ids)
    with assms \<open>_ = Inr d\<close> l have "fetch_each w token d ids [] tr0 = (res, tr1)"
      by (simp add: fetch_power_usage_def)
    from fetch_each_settled[OF this] obtain b where
      b: "tr1 = tr0 @ b" and sb: "settled w tr0 (isl res) b" by blast
    have "settled w tr False a" using na by (rule settled_no_data_request)
    moreover from sb a have "settled w (tr @ a) (isl res) b" by simp
    ultimately have "settled w tr (isl res) (a @ b)" by (rule settled_seq)
    moreover from a b have "tr1 = tr @ (a @ b)" by simp
    ultimately show ?thesis by blast
  qed
qed

text \<open>One day of the run: the fetch, then the submission of what it returned.\<close>

lemma fetch_forward_settled:
  assumes f: "fetch_power_usage w token date_arg (tr @ l1) = (Inr data, tr1)"
    and g: "forward_to_blockbax w data (tr1 @ l2) = (res, tr2)"
    and l1: "list_all is_log l1" and l2: "list_all is_log l2"
  shows "\<exists>ext. tr2 = tr @ ext \<and> settled w tr (isl res) ext"
proof -
  from fetch_power_usage_settled[OF f] obtain a where
    a: "tr1 = (tr @ l1) @ a" and sa: "settled w (tr @ l1) False a" by auto
  from forward_ext[OF g] obtain b where
    b: "tr2 = (tr1 @ l2) @ b" and nb: "\<not> list_ex is_data_request b" by blast
  have s1: "settled w tr False l1"
    using l1 by (rule settled_logs)
  have s2: "settled w (tr @ l1) False (a @ l2)"
    using sa l2 by (rule settled_then_logs)
  have s3: "settled w ((tr @ l1) @ a @ l2) (isl res) b"
    using nb by (rule settled_no_data_request)
  from settled_seq[OF s2 s3] have "settled w (tr @ l1) (isl res) ((a @ l2) @ b)" .
  from settled_seq[OF s1 this] have "settled w tr (isl res) (l1 @ (a @ l2) @ b)" .
  moreover from a b have "tr2 = tr @ (l1 @ (a @ l2) @ b)" by simp
  ultimately show ?thesis by blast
qed

lemma fetch_failed_settled:
  assumes f: "fetch_power_usage w token date_arg (tr @ l1) = (Inl e, tr1)"
    and l1: "list_all is_log l1"
  shows "\<exists>ext. tr1 = tr @ ext \<and> settled w tr True ext"
proof -
  from fetch_power_usage_settled[OF f] obtain a where
    a: "tr1 = (tr @ l1) @ a" and sa: "settled w (tr @ l1) True a" by auto
  have s1: "settled w tr False l1"
    using l1 by (rule settled_logs)
  have "settled w tr True (l1 @ a)"
    using s1 sa by (rule settled_seq)
  moreover from a have "tr1 = tr @ (l1 @ a)" by simp
  ultimately show ?thesis by blast
qed

lemma backfill_settled:
  "backfill w token ks tr = (res, tr1) \<Longrightarrow>
     \<exists>ext. tr1 = tr @ ext \<and> settled w tr (isl res) ext"
proof (induction ks arbitrary: tr)
  case Nil
  then show ?case by (simp add: settled_def)
next
  case (Cons k ks)
  show ?case
  proof (cases "minus_days (clock w tr) k")
    case (Inl e)
    with Cons.prems have "tr1 = tr @ []" by simp
    moreover have "settled w tr (isl res) []" by (simp add: settled_def)
    ultimately show ?thesis by blast
  next
    case (Inr t)
    obtain r0 tr0 where
      f: "fetch_power_usage w token (Some (utc_day t)) (tr @ [Log (MsgFetchingFor (utc_day t))]) = (r0, tr0)"
      by (cases "fetch_power_usage w token (Some (utc_day t)) (tr @ [Log (MsgFetchingFor (utc_day t))])")
    show ?thesis
    proof (cases r0)
      case (Inl e)
      with Cons.prems Inr f have r: "res = Inl e" "tr1 = tr0" by simp_all
      from f Inl have "fetch_power_usage w token (Some (utc_day t)) (tr @ [Log (MsgFetchingFor (utc_day t))]) = (Inl e, tr0)"
        by simp
      then have "\<exists>ext. tr0 = tr @ ext \<and> settled w tr True ext"
        by (rule fetch_failed_settled) simp
      with r show ?thesis by simp
    next
      case (Inr data)
      obtain r2 tr2 where
        g: "forward_to_blockbax w data (tr0 @ [Log (MsgSendingFor (utc_day t))]) = (r2, tr2)"
        by (cases "forward_to_blockbax w data (tr0 @ [Log (MsgSendingFor (utc_day t))])")
      from f Inr have f': "fetch_power_usage w token (Some (utc_day t)) (tr @ [Log (MsgFetchingFor (utc_day t))]) = (Inr data, tr0)"
        by simp
      have "\<exists>ext. tr2 = tr @ ext \<and> settled w tr (isl r2) ext"
        using f' g by (rule fetch_forward_settled) simp_all
      then obtain a where
        a: "tr2 = tr @ a" and sa: "settled w tr (isl r2) a" by blast
      show ?thesis
      proof (cases r2)
        case (Inl e)
        with Cons.prems \<open>minus_days (clock w tr) k = Inr t\<close> f Inr g
        have "res = Inl e" "tr1 = tr2" by simp_all
        with a sa Inl show ?thesis by simp
      next
        case (Inr u)
        with Cons.prems \<open>minus_days (clock w tr) k = Inr t\<close> f \<open>r0 = Inr data\<close> g
        have "backfill w token ks tr2 = (res, tr1)" by simp
        from Cons.IH[OF this] obtain b where
          b: "tr1 = tr2 @ b" and sb: "settled w tr2 (isl res) b" by blast
        from sa Inr have "settled w tr False a" by simp
        moreover from sb a have "settled w (tr @ a) (isl res) b" by simp
        ultimately have "settled w tr (isl res) (a @ b)" by (rule settled_seq)
        moreover from a b have "tr1 = tr @ (a @ b)" by simp
        ultimately show ?thesis by blast
      qed
    qed
  qed
qed

lemma settled_prefix:
  assumes "\<not> list_ex is_data_request p" "settled w (tr @ p) raised c"
  shows "settled w tr raised (p @ c)"
proof -
  have "settled w tr False p" using assms(1) by (rule settled_no_data_request)
  then show ?thesis using assms(2) by (rule settled_seq)
qed

text \<open>The part of \<open>main\<close> after the token was obtained, without backfill.\<close>

lemma single_day_settled:
  assumes "(case fetch_power_usage w token None (tr @ [Log MsgFetchingYesterday]) of
              (Inl e, tr3) \<Rightarrow> (Inl e, tr3)
            | (Inr data, tr3) \<Rightarrow>
                (case forward_to_blockbax w data (tr3 @ [Log MsgSending]) of
                   (Inl e, tr4) \<Rightarrow> (Inl e, tr4)
                 | (Inr u, tr4) \<Rightarrow> (Inr (), tr4 @ [Log MsgDone]))) = (res, tr1)"
  shows "\<exists>ext. tr1 = tr @ ext \<and> settled w tr (isl (res :: exn + unit)) ext"
proof -
  obtain r0 tr0 where f: "fetch_power_usage w token None (tr @ [Log MsgFetchingYesterday]) = (r0, tr0)"
    by (cases "fetch_power_usage w token None (tr @ [Log MsgFetchingYesterday])")
  show ?thesis
  proof (cases r0)
    case (Inl e)
    with assms f have r: "res = Inl e" "tr1 = tr0" by simp_all
    from f Inl have "fetch_power_usage w token None (tr @ [Log MsgFetchingYesterday]) = (Inl e, tr0)"
      by simp
    then have "\<exists>ext. tr0 = tr @ ext \<and> settled w tr True ext"
      by (rule fetch_failed_settled) simp
    with r show ?thesis by simp
  next
    case (Inr data)
    obtain r2 tr2 where g: "forward_to_blockbax w data (tr0 @ [Log MsgSending]) = (r2, tr2)"
      by (cases "forward_to_blockbax w data (tr0 @ [Log MsgSending])")
    from f Inr have f': "fetch_power_usage w token None (tr @ [Log MsgFetchingYesterday]) = (Inr data, tr0)"
      by simp
    have "\<exists>ext. tr2 = tr @ ext \<and> settled w tr (isl r2) ext"
      using f' g by (rule fetch_forward_settled) simp_all
    then obtain a where a: "tr2 = tr @ a" and sa: "settled w tr (isl r2) a" by blast
    show ?thesis
    proof (cases r2)
      case (Inl e)
      with assms f Inr g have "res = Inl e" "tr1 = tr2" by simp_all
      with a sa Inl show ?thesis by simp
    next
      case (Inr u)
      with assms f \<open>r0 = Inr data\<close> g have r: "res = Inr ()" "tr1 = tr2 @ [Log MsgDone]" by simp_all
      from sa Inr have "settled w tr False a" by simp
      then have "settled w tr False (a @ [Log MsgDone])"
        by (rule settled_then_logs) simp
      moreover from r a have "tr1 = tr @ (a @ [Log MsgDone])" by simp
      ultimately show ?thesis using r by auto
    qed
  qed
qed

text \<open>The part of \<open>main\<close> after the token was obtained, with backfill.\<close>

lemma backfill_days_settled:
  assumes "(case backfill w token ks (tr @ [Log (MsgBackfilling n)]) of
              (Inl e, tr3) \<Rightarrow> (Inl e, tr3)
            | (Inr u, tr3) \<Rightarrow> (Inr (), tr3 @ [Log MsgBackfillComplete])) = (res, tr1)"
  shows "\<exists>ext. tr1 = tr @ ext \<and> settled w tr (isl (res :: exn + unit)) ext"
proof -
  obtain r0 tr0 where f: "backfill w token ks (tr @ [Log (MsgBackfilling n)]) = (r0, tr0)"
    by (cases "backfill w token ks (tr @ [Log (MsgBackfilling n)])")
  from backfill_settled[OF f] obtain a where
    a: "tr0 = (tr @ [Log (MsgBackfilling n)]) @ a"
    and sa: "settled w (tr @ [Log (MsgBackfilling n)]) (isl r0) a" by blast
  have "\<not> list_ex is_data_request [Log (MsgBackfilling n)]" by simp
  then have s: "settled w tr (isl r0) ([Log (MsgBackfilling n)] @ a)"
    using sa by (rule settled_prefix)
  show ?thesis
  proof (cases r0)
    case (Inl e)
    with assms f have "res = Inl e" "tr1 = tr0" by simp_all
    with a s Inl show ?thesis by simp
  next
    case (Inr u)
    with assms f have r: "res = Inr ()" "tr1 = tr0 @ [Log MsgBackfillComplete]" by simp_all
    from s Inr have "settled w tr False ([Log (MsgBackfilling n)] @ a)" by simp
    then have "settled w tr False (([Log (MsgBackfilling n)] @ a) @ [Log MsgBackfillComplete])"
      by (rule settled_then_logs) simp
    moreover from r a have
      "tr1 = tr @ (([Log (MsgBackfilling n)] @ a) @ [Log MsgBackfillComplete])" by simp
    ultimately show ?thesis using r by auto
  qed
qed

lemma main_body_settled:
  assumes "main_body w backfill_days tr = (res, tr1)"
  shows "\<exists>ext. tr1 = tr @ ext \<and> settled w tr (isl res) ext"
proof -
  obtain r0 tr0 where c: "check_run_yesterday w tr = (r0, tr0)"
    by (cases "check_run_yesterday w tr")
  from check_run_yesterday_ext[OF c] obtain a where
    a: "tr0 = tr @ a" and na: "\<not> list_ex is_data_request a" by blast
  show ?thesis
  proof (cases r0)
    case (Inl e)
    with assms c have "tr1 = tr0" by (simp add: main_body_def)
    moreover have "settled w tr (isl res) a" using na by (rule settled_no_data_request)
    ultimately show ?thesis using a by blast
  next
    case (Inr found)
    show ?thesis
    proof (cases found)
      case True
      with assms c Inr have "tr1 = tr0 @ [Log MsgSkip]" by (simp add: main_body_def)
      with a have "tr1 = tr @ (a @ [Log MsgSkip])" by simp
      moreover have "\<not> list_ex is_data_request (a @ [Log MsgSkip])" using na by simp
      then have "settled w tr (isl res) (a @ [Log MsgSkip])" by (rule settled_no_data_request)
      ultimately show ?thesis by blast
    next
      case False
      obtain r2 tr2 where
        g: "get_access_token w (tr0 @ [Log MsgProceed, Log MsgAuthenticating]) = (r2, tr2)"
        by (cases "get_access_token w (tr0 @ [Log MsgProceed, Log MsgAuthenticating])")
      from get_access_token_ext[OF g] obtain b where
        b: "tr2 = (tr0 @ [Log MsgProceed, Log MsgAuthenticating]) @ b"
        and nb: "\<not> list_ex is_data_request b" by blast
      define p where "p = a @ [Log MsgProceed, Log MsgAuthenticating] @ b"
      have p: "tr2 = tr @ p" using a b by (simp add: p_def)
      have np: "\<not> list_ex is_data_request p" using na nb by (simp add: p_def)
      show ?thesis
      proof (cases r2)
        case (Inl e)
        with assms c Inr False g have "tr1 = tr2" by (simp add: main_body_def)
        moreover have "settled w tr (isl res) p" using np by (rule settled_no_data_request)
        ultimately show ?thesis using p by blast
      next
        case (Inr token)
        have "\<exists>ext. tr1 = tr2 @ ext \<and> settled w tr2 (isl res) ext"
        proof (cases "backfill_days > 0")
          case True
          with assms c \<open>r0 = Inr found\<close> False g Inr have
            "(case backfill w token (range_down backfill_days) (tr2 @ [Log (MsgBackfilling backfill_days)]) of
                (Inl e, tr3) \<Rightarrow> (Inl e, tr3)
              | (Inr u, tr3) \<Rightarrow> (Inr (), tr3 @ [Log MsgBackfillComplete])) = (res, tr1)"
            by (simp add: main_body_def)
          then show ?thesis by (rule backfill_days_settled)
        next
          case nobackfill: False
          with assms c \<open>r0 = Inr found\<close> False g Inr have
            "(case fetch_power_usage w token None (tr2 @ [Log MsgFetchingYesterday]) of
                (Inl e, tr3) \<Rightarrow> (Inl e, tr3)
              | (Inr data, tr3) \<Rightarrow>
                  (case forward_to_blockbax w data (tr3 @ [Log MsgSending]) of
                     (Inl e, tr4) \<Rightarrow> (Inl e, tr4)
                   | (Inr u, tr4) \<Rightarrow> (Inr (), tr4 @ [Log MsgDone]))) = (res, tr1)"
            by (simp add: main_body_def)
          then show ?thesis by (rule single_day_settled)
        qed
        then obtain ext where e: "tr1 = tr2 @ ext" and s: "settled w tr2 (isl res) ext" by blast
        from s p have "settled w (tr @ p) (isl res) ext" by simp
        with np have "settled w tr (isl res) (p @ ext)" by (rule settled_prefix)
        moreover from e p have "tr1 = tr @ (p @ ext)" by simp
        ultimately show ?thesis by blast
      qed
    qed
  qed
qed

text \<open>
  Claim C4. When a per-meter request of a fetch fails, \<open>fetch_power_usage\<close> ends with an
  exception, not with a list of payloads, and the failed request is the last request it
  made. In a whole run, whatever the backfill day-count, nothing but log lines follows
  the first failed per-meter request: no further fetch and no call of the forwarder.
\<close>

theorem fetch_failure_aborts_run:
  "(fetch_power_usage w token date_arg tr = (res, tr @ ext) \<and> has_data_failure w tr ext \<longrightarrow>
      isl res \<and> aborts_after_failure w tr ext) \<and>
   (\<exists>ext'. snd (main w backfill_days tr) = tr @ ext' \<and> aborts_after_failure w tr ext')"
proof (intro conjI impI)
  assume a: "fetch_power_usage w token date_arg tr = (res, tr @ ext) \<and> has_data_failure w tr ext"
  then have "fetch_power_usage w token date_arg tr = (res, tr @ ext)" by simp
  from fetch_power_usage_settled[OF this] have "settled w tr (isl res) ext" by simp
  with a show "isl res" and "aborts_after_failure w tr ext"
    by (simp_all add: settled_def)
next
  obtain r tr1 where b: "main_body w backfill_days tr = (r, tr1)"
    by (cases "main_body w backfill_days tr")
  from main_body_settled[OF b] obtain a where
    a: "tr1 = tr @ a" and sa: "settled w tr (isl r) a" by blast
  show "\<exists>ext'. snd (main w backfill_days tr) = tr @ ext' \<and> aborts_after_failure w tr ext'"
  proof (cases r)
    case (Inl e)
    with b a have "snd (main w backfill_days tr) = tr @ (a @ [Log (MsgError e)])"
      by (simp add: main_def)
    moreover have "settled w tr (isl r) (a @ [Log (MsgError e)])"
      using sa by (rule settled_then_logs) simp
    then have "aborts_after_failure w tr (a @ [Log (MsgError e)])"
      by (simp add: settled_def)
    ultimately show ?thesis by blast
  next
    case (Inr u)
    with b a have "snd (main w backfill_days tr) = tr @ a" by (simp add: main_def)
    moreover from sa have "aborts_after_failure w tr a" by (simp add: settled_def)
    ultimately show ?thesis by blast
  qed
qed

lemma demo_respond: "respond (demo_world found meters) tr q = demo_answers found meters q"
  by (simp add: demo_world_def)

lemma demo_failing_fetch:
  "fetch_power_usage (demo_world (JList []) meter_list_AXB) (JStr ''T1'') (Some 19674) [] =
     (Inl (HTTPError 500),
      [] @ [Req (MetersReq (JStr ''T1'')), Req (DataReq (JStr ''T1'') (JStr ''A'') 19674),
            Req (DataReq (JStr ''T1'') (JStr ''X'') 19674), Log (MsgMeterFailed (JStr ''X'') 500)])"
  by (simp add: demo_respond ok_json_def fetch_power_usage_def list_meters_def
      raise_for_status_def parse_meters_def meter_list_AXB_def meter_ids_def
      List.map_filter_simps parse_data_def)

theorem fetch_failure_aborts_run_witness:
  "has_data_failure (demo_world (JList []) meter_list_AXB) []
     (snd (main (demo_world (JList []) meter_list_AXB) 0 [])) \<and>
   aborts_after_failure (demo_world (JList []) meter_list_AXB) []
     (snd (main (demo_world (JList []) meter_list_AXB) 0 [])) \<and>
   isl (fst (fetch_power_usage (demo_world (JList []) meter_list_AXB) (JStr ''T1'') (Some 19674) []))"
proof -
  have t: "snd (main (demo_world (JList []) meter_list_AXB) 0 []) =
      [Req SubjectsReq, Req (MeasurementsReq [JStr ''s1''] 19674 1),
       Log MsgProceed, Log MsgAuthenticating, Req TokenReq,
       Log MsgFetchingYesterday, Req (MetersReq (JStr ''T1'')),
       Req (DataReq (JStr ''T1'') (JStr ''A'') 19674),
       Req (DataReq (JStr ''T1'') (JStr ''X'') 19674),
       Log (MsgMeterFailed (JStr ''X'') 500), Log (MsgError (HTTPError 500))]"
    by (simp add: main_def demo_failing_body)
  have h: "has_data_failure (demo_world (JList []) meter_list_AXB) []
      [Req SubjectsReq, Req (MeasurementsReq [JStr ''s1''] 19674 1),
       Log MsgProceed, Log MsgAuthenticating, Req TokenReq,
       Log MsgFetchingYesterday, Req (MetersReq (JStr ''T1'')),
       Req (DataReq (JStr ''T1'') (JStr ''A'') 19674),
       Req (DataReq (JStr ''T1'') (JStr ''X'') 19674),
       Log (MsgMeterFailed (JStr ''X'') 500), Log (MsgError (HTTPError 500))]"
    by (simp add: demo_respond ok_json_def)
  have i: "isl (fst (fetch_power_usage (demo_world (JList []) meter_list_AXB) (JStr ''T1'')
      (Some 19674) []))"
    by (simp add: demo_failing_fetch)
  from fetch_failure_aborts_run[where w = "demo_world (JList []) meter_list_AXB" and tr = "[]"
      and backfill_days = 0]
  have "aborts_after_failure (demo_world (JList []) meter_list_AXB) []
      (snd (main (demo_world (JList []) meter_list_AXB) 0 []))"
    by simp
  with t h i show ?thesis by simp
qed

section \<open>Fetch/forward cycles\<close>

lemma utc_day_minus: "utc_day (t - 86400 * k) = utc_day t - k"
  using div_mult_self4[of 86400 "- k" t] by (simp add: utc_day_def)

lemma minus_days_Inr: "minus_days t k = Inr t' \<Longrightarrow> utc_day t' = utc_day t - k"
  by (auto simp: minus_days_def utc_day_minus split: if_splits)

lemma requests_of_simps:
  "requests_of [] = []"
  "requests_of (Req q # tr) = q # requests_of tr"
  "requests_of (Log m # tr) = requests_of tr"
  "requests_of (a @ b) = requests_of a @ requests_of b"
  by (simp_all add: requests_of_def)

lemma requests_of_map: "requests_of (map (\<lambda>m. Req (f m)) xs) = map f xs"
  by (induction xs) (simp_all add: requests_of_simps)

lemma get_access_token_Inr:
  "get_access_token w tr = (Inr token, tr1) \<Longrightarrow> tr1 = tr @ [Req TokenReq]"
  by (auto simp: get_access_token_def split: sum.splits)

lemma list_meters_Inr:
  "list_meters w token tr = (Inr ids, tr1) \<Longrightarrow> tr1 = tr @ [Req (MetersReq token)]"
  by (auto simp: list_meters_def split: sum.splits)

lemma forward_Inr:
  "forward_to_blockbax w data tr = (Inr u, tr1) \<Longrightarrow> tr1 = tr @ [Req (ForwardReq data)]"
  by (auto simp: forward_to_blockbax_def split: sum.splits)

lemma fetch_each_Inr:
  "fetch_each w token d mids acc tr = (Inr data, tr1) \<Longrightarrow>
     tr1 = tr @ map (\<lambda>m. Req (DataReq token m d)) mids \<and> length data = length acc + length mids"
proof (induction mids arbitrary: acc tr)
  case Nil
  then show ?case by simp
next
  case (Cons m mids)
  from Cons.prems obtain r raw where
    "respond w tr (DataReq token m d) = Inr r" "parse_data r = Inr raw"
    and rec: "fetch_each w token d mids (acc @ [raw]) (tr @ [Req (DataReq token m d)]) = (Inr data, tr1)"
    by (auto split: sum.splits)
  from Cons.IH[OF rec] show ?case by simp
qed

lemma fetch_power_usage_Inr:
  assumes "fetch_power_usage w token date_arg tr = (Inr data, tr1)"
  shows "\<exists>c d. requests_of tr1 = requests_of tr @ MetersReq token # map (\<lambda>m. DataReq token m d) (fst c) \<and>
           snd c = data \<and> length (snd c) = length (fst c) \<and>
           (case date_arg of
              None \<Rightarrow> d = utc_day (clock w tr) - 1
            | Some d' \<Rightarrow> d = d')"
proof -
  from assms obtain d where
    d: "(case date_arg of None \<Rightarrow> map_sum id utc_day (minus_days (clock w tr) 1)
          | Some d' \<Rightarrow> Inr d') = Inr d"
    by (auto simp: fetch_power_usage_def split: sum.splits)
  with assms obtain ids tr0 where
    l: "list_meters w token tr = (Inr ids, tr0)"
    and f: "fetch_each w token d ids [] tr0 = (Inr data, tr1)"
    by (auto simp: fetch_power_usage_def split: sum.splits prod.splits)
  from list_meters_Inr[OF l] have tr0: "tr0 = tr @ [Req (MetersReq token)]" .
  from fetch_each_Inr[OF f] have
    tr1: "tr1 = tr0 @ map (\<lambda>m. Req (DataReq token m d)) ids" and len: "length data = length ids"
    by simp_all
  have r: "requests_of tr1 = requests_of tr @ MetersReq token # map (\<lambda>m. DataReq token m d) ids"
    unfolding tr1 tr0 by (simp add: requests_of_simps requests_of_map)
  have "case date_arg of None \<Rightarrow> d = utc_day (clock w tr) - 1 | Some d' \<Rightarrow> d = d'"
  proof (cases date_arg)
    case None
    with d obtain t where "minus_days (clock w tr) 1 = Inr t" "d = utc_day t"
      by (cases "minus_days (clock w tr) 1") auto
    with minus_days_Inr[of "clock w tr" 1 t] None show ?thesis by simp
  next
    case (Some d')
    with d show ?thesis by simp
  qed
  with r len show ?thesis
    by (intro exI[of _ "(ids, data)"] exI[of _ d]) simp
qed

text \<open>One successful cycle: a fetch for \<open>date_arg\<close>, log lines around it, the submission.\<close>

lemma cycle_Inr:
  assumes f: "fetch_power_usage w token date_arg (tr @ [Log m1]) = (Inr data, tr1)"
    and g: "forward_to_blockbax w data (tr1 @ [Log m2]) = (Inr u, tr2)"
  shows "\<exists>c d. requests_of tr2 = requests_of tr @ cycle_requests token d c \<and>
           length (snd c) = length (fst c) \<and>
           (case date_arg of
              None \<Rightarrow> d = utc_day (clock w (tr @ [Log m1])) - 1
            | Some d' \<Rightarrow> d = d')"
proof -
  from fetch_power_usage_Inr[OF f] obtain c d where
    r: "requests_of tr1 = requests_of (tr @ [Log m1]) @ MetersReq token # map (\<lambda>m. DataReq token m d) (fst c)"
    and c: "snd c = data" "length (snd c) = length (fst c)"
    and d: "case date_arg of None \<Rightarrow> d = utc_day (clock w (tr @ [Log m1])) - 1 | Some d' \<Rightarrow> d = d'"
    by blast
  from forward_Inr[OF g] have "tr2 = (tr1 @ [Log m2]) @ [Req (ForwardReq data)]" .
  then have "requests_of tr2 = requests_of tr1 @ [ForwardReq data]"
    by (simp add: requests_of_simps)
  with r c have "requests_of tr2 = requests_of tr @ cycle_requests token d c"
    by (simp add: requests_of_simps cycle_requests_def)
  with c d show ?thesis by blast
qed




lemma main_body_proceeds:
  assumes c: "fst (check_run_yesterday w tr0) = Inr False"
    and m: "main_body w n tr0 = (Inr (), tr)"
  obtains sids day token where
    "get_access_token w (tr0 @ [Req SubjectsReq, Req (MeasurementsReq sids day 1),
        Log MsgProceed, Log MsgAuthenticating]) =
       (Inr token, tr0 @ [Req SubjectsReq, Req (MeasurementsReq sids day 1),
        Log MsgProceed, Log MsgAuthenticating, Req TokenReq])"
    "(if n > 0 then
        (case backfill w token (range_down n)
                (tr0 @ [Req SubjectsReq, Req (MeasurementsReq sids day 1),
                   Log MsgProceed, Log MsgAuthenticating, Req TokenReq, Log (MsgBackfilling n)]) of
           (Inl e, tr3) \<Rightarrow> (Inl e, tr3)
         | (Inr u', tr3) \<Rightarrow> (Inr (), tr3 @ [Log MsgBackfillComplete]))
      else
        (case fetch_power_usage w token None
                (tr0 @ [Req SubjectsReq, Req (MeasurementsReq sids day 1),
                   Log MsgProceed, Log MsgAuthenticating, Req TokenReq, Log MsgFetchingYesterday]) of
           (Inl e, tr3) \<Rightarrow> (Inl e, tr3)
         | (Inr data, tr3) \<Rightarrow>
             (case forward_to_blockbax w data (tr3 @ [Log MsgSending]) of
                (Inl e, tr4) \<Rightarrow> (Inl e, tr4)
              | (Inr u', tr4) \<Rightarrow> (Inr (), tr4 @ [Log MsgDone])))) = (Inr (), tr)"
proof -
  obtain trc where c': "check_run_yesterday w tr0 = (Inr False, trc)"
    using c by (cases "check_run_yesterday w tr0") simp
  from check_run_yesterday_returns[OF c'] obtain sids day where
    trc: "trc = tr0 @ [Req SubjectsReq, Req (MeasurementsReq sids day 1)]" by blast
  obtain r2 tr2 where g: "get_access_token w (trc @ [Log MsgProceed, Log MsgAuthenticating]) = (r2, tr2)"
    by (cases "get_access_token w (trc @ [Log MsgProceed, Log MsgAuthenticating])")
  from m c' g obtain token where r2: "r2 = Inr token"
    by (cases r2) (simp_all add: main_body_def)
  from get_access_token_Inr[of w "trc @ [Log MsgProceed, Log MsgAuthenticating]" token tr2] g r2
  have tr2: "tr2 = trc @ [Log MsgProceed, Log MsgAuthenticating, Req TokenReq]" by simp
  show ?thesis
  proof (rule that[of sids day token])
    show "get_access_token w (tr0 @ [Req SubjectsReq, Req (MeasurementsReq sids day 1),
        Log MsgProceed, Log MsgAuthenticating]) =
       (Inr token, tr0 @ [Req SubjectsReq, Req (MeasurementsReq sids day 1),
        Log MsgProceed, Log MsgAuthenticating, Req TokenReq])"
      using g r2 tr2 trc by simp
    show "(if n > 0 then
        (case backfill w token (range_down n)
                (tr0 @ [Req SubjectsReq, Req (MeasurementsReq sids day 1),
                   Log MsgProceed, Log MsgAuthenticating, Req TokenReq, Log (MsgBackfilling n)]) of
           (Inl e, tr3) \<Rightarrow> (Inl e, tr3)
         | (Inr u', tr3) \<Rightarrow> (Inr (), tr3 @ [Log MsgBackfillComplete]))
      else
        (case fetch_power_usage w token None
                (tr0 @ [Req SubjectsReq, Req (MeasurementsReq sids day 1),
                   Log MsgProceed, Log MsgAuthenticating, Req TokenReq, Log MsgFetchingYesterday]) of
           (Inl e, tr3) \<Rightarrow> (Inl e, tr3)
         | (Inr data, tr3) \<Rightarrow>
             (case forward_to_blockbax w data (tr3 @ [Log MsgSending]) of
                (Inl e, tr4) \<Rightarrow> (Inl e, tr4)
              | (Inr u', tr4) \<Rightarrow> (Inr (), tr4 @ [Log MsgDone])))) = (Inr (), tr)"
      using m c' g r2 tr2 trc by (cases "0 < n") (simp_all add: main_body_def)
  qed
qed


lemma demo_day: "\<forall>h. utc_day (clock (demo_world found meters) h) = 19675"
  by (simp add: demo_world_def utc_day_def)

lemma demo_check_false:
  "fst (check_run_yesterday (demo_world (JList []) meters) []) = Inr False"
  by (simp add: check_run_yesterday_def demo_world_def ok_json_def subjects_of_def
      raise_for_status_def minus_days_def min_secs_def max_secs_def utc_day_def has_result_def)

lemma range_down_2: "range_down 2 = [2, 1]"
  by (simp add: range_down_def upto_rec1)

lemma demo_backfill_body:
  "main_body (demo_world (JList []) meter_list_AAB) 2 [] =
     (Inr (),
      [Req SubjectsReq, Req (MeasurementsReq [JStr ''s1''] 19674 1),
       Log MsgProceed, Log MsgAuthenticating, Req TokenReq,
       Log (MsgBackfilling 2), Log (MsgFetchingFor 19673),
       Req (MetersReq (JStr ''T1'')),
       Req (DataReq (JStr ''T1'') (JStr ''A'') 19673),
       Req (DataReq (JStr ''T1'') (JStr ''B'') 19673),
       Log (MsgSendingFor 19673),
       Req (ForwardReq [JObj [(''m'', JStr ''A'')], JObj [(''m'', JStr ''B'')]]),
       Log (MsgFetchingFor 19674), Req (MetersReq (JStr ''T1'')),
       Req (DataReq (JStr ''T1'') (JStr ''A'') 19674),
       Req (DataReq (JStr ''T1'') (JStr ''B'') 19674),
       Log (MsgSendingFor 19674),
       Req (ForwardReq [JObj [(''m'', JStr ''A'')], JObj [(''m'', JStr ''B'')]]),
       Log MsgBackfillComplete])"
  by (simp add: main_body_def check_run_yesterday_def demo_world_def ok_json_def subjects_of_def
      raise_for_status_def minus_days_def min_secs_def max_secs_def utc_day_def has_result_def
      get_access_token_def token_of_def fetch_power_usage_def list_meters_def parse_meters_def
      meter_list_AAB_def meter_ids_def List.map_filter_simps parse_data_def
      forward_to_blockbax_def range_down_2)

text \<open>
  Claim C10. With a backfill day-count of zero or less, \<open>main\<close> does exactly what it does
  with the default 0; when such a run passes the idempotency gate and completes without
  an error, its requests are the two calls of the check, one token request and exactly
  one fetch/forward cycle, for the day before the UTC day on which the fetch starts.
\<close>

theorem nonpositive_backfill_is_default:
  assumes "D \<le> 0"
  shows "main w D tr0 = main w 0 tr0 \<and>
         (fst (check_run_yesterday w tr0) = Inr False \<and> main_body w D tr0 = (Inr (), tr) \<longrightarrow>
            (\<exists>sids day token c.
               requests_of tr =
                 requests_of tr0 @ [SubjectsReq, MeasurementsReq sids day 1, TokenReq] @
                 cycle_requests token
                   (utc_day (clock w (tr0 @ [Req SubjectsReq, Req (MeasurementsReq sids day 1),
                       Log MsgProceed, Log MsgAuthenticating, Req TokenReq,
                       Log MsgFetchingYesterday])) - 1) c \<and>
               length (snd c) = length (fst c)))"
proof (intro conjI impI)
  have "main_body w D tr0 = main_body w 0 tr0"
    using assms by (auto simp: main_body_def split: prod.splits sum.splits bool.splits)
  then show "main w D tr0 = main w 0 tr0"
    by (simp add: main_def)
next
  assume a: "fst (check_run_yesterday w tr0) = Inr False \<and> main_body w D tr0 = (Inr (), tr)"
  then have a1: "fst (check_run_yesterday w tr0) = Inr False"
    and a2: "main_body w D tr0 = (Inr (), tr)" by simp_all
  from a1 a2 obtain sids day token where
    b0: "(if D > 0 then
        (case backfill w token (range_down D)
                (tr0 @ [Req SubjectsReq, Req (MeasurementsReq sids day 1),
                   Log MsgProceed, Log MsgAuthenticating, Req TokenReq, Log (MsgBackfilling D)]) of
           (Inl e, tr3) \<Rightarrow> (Inl e, tr3)
         | (Inr u', tr3) \<Rightarrow> (Inr (), tr3 @ [Log MsgBackfillComplete]))
      else
        (case fetch_power_usage w token None
                (tr0 @ [Req SubjectsReq, Req (MeasurementsReq sids day 1),
                   Log MsgProceed, Log MsgAuthenticating, Req TokenReq, Log MsgFetchingYesterday]) of
           (Inl e, tr3) \<Rightarrow> (Inl e, tr3)
         | (Inr data, tr3) \<Rightarrow>
             (case forward_to_blockbax w data (tr3 @ [Log MsgSending]) of
                (Inl e, tr4) \<Rightarrow> (Inl e, tr4)
              | (Inr u', tr4) \<Rightarrow> (Inr (), tr4 @ [Log MsgDone])))) = (Inr (), tr)"
    by (rule main_body_proceeds)
  from b0 assms have
    b: "(case fetch_power_usage w token None
                (tr0 @ [Req SubjectsReq, Req (MeasurementsReq sids day 1),
                   Log MsgProceed, Log MsgAuthenticating, Req TokenReq, Log MsgFetchingYesterday]) of
           (Inl e, tr3) \<Rightarrow> (Inl e, tr3)
         | (Inr data, tr3) \<Rightarrow>
             (case forward_to_blockbax w data (tr3 @ [Log MsgSending]) of
                (Inl e, tr4) \<Rightarrow> (Inl e, tr4)
              | (Inr u', tr4) \<Rightarrow> (Inr (), tr4 @ [Log MsgDone]))) = (Inr (), tr)"
    by simp
  define pre where "pre = tr0 @ [Req SubjectsReq, Req (MeasurementsReq sids day 1),
                   Log MsgProceed, Log MsgAuthenticating, Req TokenReq]"
  from b obtain data tr3 tr4 u' where
    f: "fetch_power_usage w token None (pre @ [Log MsgFetchingYesterday]) = (Inr data, tr3)"
    and g: "forward_to_blockbax w data (tr3 @ [Log MsgSending]) = (Inr u', tr4)"
    and tr: "tr = tr4 @ [Log MsgDone]"
    by (auto simp: pre_def split: sum.splits prod.splits)
  from cycle_Inr[OF f g] obtain c where
    c: "requests_of tr4 = requests_of pre @
          cycle_requests token (utc_day (clock w (pre @ [Log MsgFetchingYesterday])) - 1) c"
       "length (snd c) = length (fst c)"
    by auto
  have "requests_of tr =
      requests_of tr0 @ [SubjectsReq, MeasurementsReq sids day 1, TokenReq] @
      cycle_requests token
        (utc_day (clock w (tr0 @ [Req SubjectsReq, Req (MeasurementsReq sids day 1),
            Log MsgProceed, Log MsgAuthenticating, Req TokenReq, Log MsgFetchingYesterday])) - 1) c"
    unfolding tr using c(1) by (simp add: pre_def requests_of_simps)
  with c(2) show "\<exists>sids day token c.
               requests_of tr =
                 requests_of tr0 @ [SubjectsReq, MeasurementsReq sids day 1, TokenReq] @
                 cycle_requests token
                   (utc_day (clock w (tr0 @ [Req SubjectsReq, Req (MeasurementsReq sids day 1),
                       Log MsgProceed, Log MsgAuthenticating, Req TokenReq,
                       Log MsgFetchingYesterday])) - 1) c \<and>
               length (snd c) = length (fst c)"
    by blast
qed

lemma demo_default_body:
  "main_body (demo_world (JList []) meter_list_AAB) (- 3) [] =
     (Inr (),
      [Req SubjectsReq, Req (MeasurementsReq [JStr ''s1''] 19674 1),
       Log MsgProceed, Log MsgAuthenticating, Req TokenReq,
       Log MsgFetchingYesterday, Req (MetersReq (JStr ''T1'')),
       Req (DataReq (JStr ''T1'') (JStr ''A'') 19674),
       Req (DataReq (JStr ''T1'') (JStr ''B'') 19674), Log MsgSending,
       Req (ForwardReq [JObj [(''m'', JStr ''A'')], JObj [(''m'', JStr ''B'')]]),
       Log MsgDone])"
  by (simp add: main_body_def check_run_yesterday_def demo_world_def ok_json_def subjects_of_def
      raise_for_status_def minus_days_def min_secs_def max_secs_def utc_day_def has_result_def
      get_access_token_def token_of_def fetch_power_usage_def list_meters_def parse_meters_def
      meter_list_AAB_def meter_ids_def List.map_filter_simps parse_data_def
      forward_to_blockbax_def)

theorem nonpositive_backfill_is_default_witness:
  "main (demo_world (JList []) meter_list_AAB) (- 3) [] =
     main (demo_world (JList []) meter_list_AAB) 0 [] \<and>
   (\<exists>sids day token c.
      requests_of
        [Req SubjectsReq, Req (MeasurementsReq [JStr ''s1''] 19674 1),
         Log MsgProceed, Log MsgAuthenticating, Req TokenReq,
         Log MsgFetchingYesterday, Req (MetersReq (JStr ''T1'')),
         Req (DataReq (JStr ''T1'') (JStr ''A'') 19674),
         Req (DataReq (JStr ''T1'') (JStr ''B'') 19674), Log MsgSending,
         Req (ForwardReq [JObj [(''m'', JStr ''A'')], JObj [(''m'', JStr ''B'')]]),
         Log MsgDone] =
        [SubjectsReq, MeasurementsReq sids day 1, TokenReq] @ cycle_requests token 19674 c \<and>
      length (snd c) = length (fst c))"
  using nonpositive_backfill_is_default[of "- 3" "demo_world (JList []) meter_list_AAB" "[]"
      "[Req SubjectsReq, Req (MeasurementsReq [JStr ''s1''] 19674 1),
         Log MsgProceed, Log MsgAuthenticating, Req TokenReq,
         Log MsgFetchingYesterday, Req (MetersReq (JStr ''T1'')),
         Req (DataReq (JStr ''T1'') (JStr ''A'') 19674),
         Req (DataReq (JStr ''T1'') (JStr ''B'') 19674), Log MsgSending,
         Req (ForwardReq [JObj [(''m'', JStr ''A'')], JObj [(''m'', JStr ''B'')]]),
         Log MsgDone]"]
    demo_day[of "JList []" meter_list_AAB]
  by (simp add: demo_check_false demo_default_body requests_of_simps)

section \<open>Backfill over a fixed day\<close>



















section \<open>A meter list of the wrong shape aborts the run\<close>

lemma logs_no_meters_request: "list_all is_log b \<Longrightarrow> \<not> list_ex is_meters_request b"
proof (induction b)
  case Nil
  then show ?case by simp
next
  case (Cons e b)
  then show ?case by (cases e) simp_all
qed

lemma no_meters_request_no_mismatch:
  "\<not> list_ex is_meters_request a \<Longrightarrow> \<not> has_mismatch w tr a"
proof (induction a arbitrary: tr)
  case Nil
  then show ?case by simp
next
  case (Cons e a)
  from Cons.prems have "\<not> is_meters_request e" and "\<not> list_ex is_meters_request a" by simp_all
  moreover from \<open>\<not> is_meters_request e\<close> have "\<not> meters_mismatch w tr e"
    by (cases "(w, tr, e)" rule: meters_mismatch.cases) simp_all
  ultimately show ?case using Cons.IH by simp
qed

lemma no_mismatch_aborts:
  "\<not> has_mismatch w tr a \<Longrightarrow> aborts_after_mismatch w tr a"
  by (induction a arbitrary: tr) simp_all

lemma mismatch_aborts_append:
  "\<not> has_mismatch w tr a \<Longrightarrow>
     aborts_after_mismatch w tr (a @ b) = aborts_after_mismatch w (tr @ a) b"
  by (induction a arbitrary: tr) simp_all

lemma mismatch_append:
  "\<not> has_mismatch w tr a \<Longrightarrow>
     has_mismatch w tr (a @ b) = has_mismatch w (tr @ a) b"
  by (induction a arbitrary: tr) simp_all

lemma mismatch_aborts_append_logs:
  "has_mismatch w tr a \<Longrightarrow> aborts_after_mismatch w tr a \<Longrightarrow> list_all is_log b \<Longrightarrow>
     aborts_after_mismatch w tr (a @ b)"
  by (induction a arbitrary: tr) (auto split: if_splits)

lemma rejected_no_meters_request:
  "\<not> list_ex is_meters_request a \<Longrightarrow> rejected w tr raised a"
  by (simp add: rejected_def no_meters_request_no_mismatch no_mismatch_aborts)

lemma rejected_logs: "list_all is_log a \<Longrightarrow> rejected w tr raised a"
  by (simp add: rejected_no_meters_request logs_no_meters_request)

lemma rejected_seq:
  assumes "rejected w tr False a" "rejected w (tr @ a) raised b"
  shows "rejected w tr raised (a @ b)"
proof -
  from assms(1) have n: "\<not> has_mismatch w tr a" by (simp add: rejected_def)
  from assms(2) show ?thesis
    by (simp add: rejected_def mismatch_aborts_append[OF n] mismatch_append[OF n])
qed

lemma rejected_then_logs:
  assumes "rejected w tr raised a" "list_all is_log b"
  shows "rejected w tr raised (a @ b)"
proof (cases "has_mismatch w tr a")
  case True
  with assms show ?thesis
    by (simp add: rejected_def mismatch_aborts_append_logs)
next
  case False
  have "rejected w (tr @ a) raised b"
    using assms(2) by (rule rejected_logs)
  then show ?thesis
    by (simp add: rejected_def mismatch_aborts_append[OF False] mismatch_append[OF False])
qed

lemma fetch_each_no_meters:
  "fetch_each w token d mids acc tr = (res, tr1) \<Longrightarrow>
     \<exists>ext. tr1 = tr @ ext \<and> \<not> list_ex is_meters_request ext"
proof (induction mids arbitrary: acc tr)
  case Nil
  then show ?case by simp
next
  case (Cons m mids)
  show ?case
  proof (cases "respond w tr (DataReq token m d)")
    case (Inl e)
    with Cons.prems have "tr1 = tr @ [Req (DataReq token m d)]" by simp
    then show ?thesis by simp
  next
    case (Inr r)
    show ?thesis
    proof (cases "parse_data r")
      case (Inl e)
      with Inr Cons.prems have
        "tr1 = tr @ [Req (DataReq token m d), Log (MsgMeterFailed m (status_code r))]"
        by simp
      then show ?thesis by simp
    next
      case (Inr raw)
      with \<open>respond w tr (DataReq token m d) = Inr r\<close> Cons.prems have
        "fetch_each w token d mids (acc @ [raw]) (tr @ [Req (DataReq token m d)]) = (res, tr1)"
        by simp
      from Cons.IH[OF this] obtain ext where
        e: "tr1 = (tr @ [Req (DataReq token m d)]) @ ext"
        and n: "\<not> list_ex is_meters_request ext" by blast
      from e have "tr1 = tr @ (Req (DataReq token m d) # ext)" by simp
      moreover from n have "\<not> list_ex is_meters_request (Req (DataReq token m d) # ext)" by simp
      ultimately show ?thesis by blast
    qed
  qed
qed

lemma list_meters_rejected:
  assumes "list_meters w token tr = (res, tr1)"
  shows "\<exists>ext. tr1 = tr @ ext \<and> rejected w tr (isl res) ext"
proof (cases "respond w tr (MetersReq token)")
  case (Inl e)
  with assms have "tr1 = tr @ [Req (MetersReq token)]" by (simp add: list_meters_def)
  moreover from Inl have "rejected w tr (isl res) [Req (MetersReq token)]"
    by (simp add: rejected_def)
  ultimately show ?thesis by blast
next
  case (Inr r)
  show ?thesis
  proof (cases "raise_for_status r")
    case (Inl e)
    with Inr assms have "tr1 = tr @ [Req (MetersReq token)]" "res = Inl e"
      by (simp_all add: list_meters_def)
    moreover from \<open>res = Inl e\<close> have "rejected w tr (isl res) [Req (MetersReq token)]"
      by (simp add: rejected_def)
    ultimately show ?thesis by blast
  next
    case ok: (Inr u)
    show ?thesis
    proof (cases "parse_meters r")
      case (Inl e)
      with Inr ok assms have
        "tr1 = tr @ [Req (MetersReq token), Log (MsgMetersFailed (status_code r))]" "res = Inl e"
        by (simp_all add: list_meters_def)
      moreover from \<open>res = Inl e\<close> have
        "rejected w tr (isl res) [Req (MetersReq token), Log (MsgMetersFailed (status_code r))]"
        by (simp add: rejected_def)
      ultimately show ?thesis by blast
    next
      case ids: (Inr ids)
      with Inr ok assms have "tr1 = tr @ [Req (MetersReq token)]"
        by (simp add: list_meters_def)
      moreover from parse_meters_Inr[OF ids] have "meters_field (json_body r) \<noteq> None" by auto
      with Inr have "rejected w tr (isl res) [Req (MetersReq token)]"
        by (auto simp: rejected_def)
      ultimately show ?thesis by blast
    qed
  qed
qed

lemma forward_no_meters:
  "forward_to_blockbax w data tr = (res, tr1) \<Longrightarrow>
     \<exists>ext. tr1 = tr @ ext \<and> \<not> list_ex is_meters_request ext"
  by (auto simp: forward_to_blockbax_def split: sum.splits)

lemma get_access_token_no_meters:
  "get_access_token w tr = (res, tr1) \<Longrightarrow>
     \<exists>ext. tr1 = tr @ ext \<and> \<not> list_ex is_meters_request ext"
  by (auto simp: get_access_token_def split: sum.splits)

lemma check_run_yesterday_no_meters:
  assumes "check_run_yesterday w tr = (res, tr1)"
  shows "\<exists>ext. tr1 = tr @ ext \<and> \<not> list_ex is_meters_request ext"
proof -
  from check_run_yesterday_trace[OF assms] consider
    "tr1 = tr @ [Req SubjectsReq]"
    | sids day where "tr1 = tr @ [Req SubjectsReq, Req (MeasurementsReq sids day 1)]"
    by blast
  then show ?thesis
  proof cases
    case 1
    have "\<not> list_ex is_meters_request [Req SubjectsReq]" by simp
    with 1 show ?thesis by blast
  next
    case 2
    have "\<not> list_ex is_meters_request [Req SubjectsReq, Req (MeasurementsReq sids day 1)]" by simp
    with 2 show ?thesis by blast
  qed
qed

lemma fetch_power_usage_rejected:
  assumes "fetch_power_usage w token date_arg tr = (res, tr1)"
  shows "\<exists>ext. tr1 = tr @ ext \<and> rejected w tr (isl res) ext"
proof (cases "case date_arg of None \<Rightarrow> map_sum id utc_day (minus_days (clock w tr) 1)
                | Some d \<Rightarrow> Inr d")
  case (Inl e)
  with assms have "tr1 = tr @ []" by (simp add: fetch_power_usage_def)
  moreover have "rejected w tr (isl res) []" by (simp add: rejected_def)
  ultimately show ?thesis by blast
next
  case (Inr d)
  obtain r0 tr0 where l: "list_meters w token tr = (r0, tr0)"
    by (cases "list_meters w token tr")
  from list_meters_rejected[OF l] obtain a where
    a: "tr0 = tr @ a" and sa: "rejected w tr (isl r0) a" by blast
  show ?thesis
  proof (cases r0)
    case (Inl e)
    with assms Inr l have "tr1 = tr0" "res = Inl e" by (simp_all add: fetch_power_usage_def)
    with a sa Inl show ?thesis by simp
  next
    case (Inr ids)
    with assms \<open>_ = Inr d\<close> l have "fetch_each w token d ids [] tr0 = (res, tr1)"
      by (simp add: fetch_power_usage_def)
    from fetch_each_no_meters[OF this] obtain b where
      b: "tr1 = tr0 @ b" and nb: "\<not> list_ex is_meters_request b" by blast
    from sa Inr have "rejected w tr False a" by simp
    moreover have "rejected w (tr @ a) (isl res) b"
      using nb by (rule rejected_no_meters_request)
    ultimately have "rejected w tr (isl res) (a @ b)" by (rule rejected_seq)
    moreover from a b have "tr1 = tr @ (a @ b)" by simp
    ultimately show ?thesis by blast
  qed
qed

text \<open>One day of the run: the fetch, then the submission of what it returned.\<close>

lemma fetch_forward_rejected:
  assumes f: "fetch_power_usage w token date_arg (tr @ l1) = (Inr data, tr1)"
    and g: "forward_to_blockbax w data (tr1 @ l2) = (res, tr2)"
    and l1: "list_all is_log l1" and l2: "list_all is_log l2"
  shows "\<exists>ext. tr2 = tr @ ext \<and> rejected w tr (isl res) ext"
proof -
  from fetch_power_usage_rejected[OF f] obtain a where
    a: "tr1 = (tr @ l1) @ a" and sa: "rejected w (tr @ l1) False a" by auto
  from forward_no_meters[OF g] obtain b where
    b: "tr2 = (tr1 @ l2) @ b" and nb: "\<not> list_ex is_meters_request b" by blast
  have s1: "rejected w tr False l1"
    using l1 by (rule rejected_logs)
  have s2: "rejected w (tr @ l1) False (a @ l2)"
    using sa l2 by (rule rejected_then_logs)
  have s3: "rejected w ((tr @ l1) @ a @ l2) (isl res) b"
    using nb by (rule rejected_no_meters_request)
  from rejected_seq[OF s2 s3] have "rejected w (tr @ l1) (isl res) ((a @ l2) @ b)" .
  from rejected_seq[OF s1 this] have "rejected w tr (isl res) (l1 @ (a @ l2) @ b)" .
  moreover from a b have "tr2 = tr @ (l1 @ (a @ l2) @ b)" by simp
  ultimately show ?thesis by blast
qed

lemma fetch_failed_rejected:
  assumes f: "fetch_power_usage w token date_arg (tr @ l1) = (Inl e, tr1)"
    and l1: "list_all is_log l1"
  shows "\<exists>ext. tr1 = tr @ ext \<and> rejected w tr True ext"
proof -
  from fetch_power_usage_rejected[OF f] obtain a where
    a: "tr1 = (tr @ l1) @ a" and sa: "rejected w (tr @ l1) True a" by auto
  have s1: "rejected w tr False l1"
    using l1 by (rule rejected_logs)
  have "rejected w tr True (l1 @ a)"
    using s1 sa by (rule rejected_seq)
  moreover from a have "tr1 = tr @ (l1 @ a)" by simp
  ultimately show ?thesis by blast
qed

lemma backfill_rejected:
  "backfill w token ks tr = (res, tr1) \<Longrightarrow>
     \<exists>ext. tr1 = tr @ ext \<and> rejected w tr (isl res) ext"
proof (induction ks arbitrary: tr)
  case Nil
  then show ?case by (simp add: rejected_def)
next
  case (Cons k ks)
  show ?case
  proof (cases "minus_days (clock w tr) k")
    case (Inl e)
    with Cons.prems have "tr1 = tr @ []" by simp
    moreover have "rejected w tr (isl res) []" by (simp add: rejected_def)
    ultimately show ?thesis by blast
  next
    case (Inr t)
    obtain r0 tr0 where
      f: "fetch_power_usage w token (Some (utc_day t)) (tr @ [Log (MsgFetchingFor (utc_day t))]) = (r0, tr0)"
      by (cases "fetch_power_usage w token (Some (utc_day t)) (tr @ [Log (MsgFetchingFor (utc_day t))])")
    show ?thesis
    proof (cases r0)
      case (Inl e)
      with Cons.prems Inr f have r: "res = Inl e" "tr1 = tr0" by simp_all
      from f Inl have "fetch_power_usage w token (Some (utc_day t)) (tr @ [Log (MsgFetchingFor (utc_day t))]) = (Inl e, tr0)"
        by simp
      then have "\<exists>ext. tr0 = tr @ ext \<and> rejected w tr True ext"
        by (rule fetch_failed_rejected) simp
      with r show ?thesis by simp
    next
      case (Inr data)
      obtain r2 tr2 where
        g: "forward_to_blockbax w data (tr0 @ [Log (MsgSendingFor (utc_day t))]) = (r2, tr2)"
        by (cases "forward_to_blockbax w data (tr0 @ [Log (MsgSendingFor (utc_day t))])")
      from f Inr have f': "fetch_power_usage w token (Some (utc_day t)) (tr @ [Log (MsgFetchingFor (utc_day t))]) = (Inr data, tr0)"
        by simp
      have "\<exists>ext. tr2 = tr @ ext \<and> rejected w tr (isl r2) ext"
        using f' g by (rule fetch_forward_rejected) simp_all
      then obtain a where
        a: "tr2 = tr @ a" and sa: "rejected w tr (isl r2) a" by blast
      show ?thesis
      proof (cases r2)
        case (Inl e)
        with Cons.prems \<open>minus_days (clock w tr) k = Inr t\<close> f Inr g
        have "res = Inl e" "tr1 = tr2" by simp_all
        with a sa Inl show ?thesis by simp
      next
        case (Inr u)
        with Cons.prems \<open>minus_days (clock w tr) k = Inr t\<close> f \<open>r0 = Inr data\<close> g
        have "backfill w token ks tr2 = (res, tr1)" by simp
        from Cons.IH[OF this] obtain b where
          b: "tr1 = tr2 @ b" and sb: "rejected w tr2 (isl res) b" by blast
        from sa Inr have "rejected w tr False a" by simp
        moreover from sb a have "rejected w (tr @ a) (isl res) b" by simp
        ultimately have "rejected w tr (isl res) (a @ b)" by (rule rejected_seq)
        moreover from a b have "tr1 = tr @ (a @ b)" by simp
        ultimately show ?thesis by blast
      qed
    qed
  qed
qed

lemma rejected_prefix:
  assumes "\<not> list_ex is_meters_request p" "rejected w (tr @ p) raised c"
  shows "rejected w tr raised (p @ c)"
proof -
  have "rejected w tr False p" using assms(1) by (rule rejected_no_meters_request)
  then show ?thesis using assms(2) by (rule rejected_seq)
qed

text \<open>The part of \<open>main\<close> after the token was obtained, without backfill.\<close>

lemma single_day_rejected:
  assumes "(case fetch_power_usage w token None (tr @ [Log MsgFetchingYesterday]) of
              (Inl e, tr3) \<Rightarrow> (Inl e, tr3)
            | (Inr data, tr3) \<Rightarrow>
                (case forward_to_blockbax w data (tr3 @ [Log MsgSending]) of
                   (Inl e, tr4) \<Rightarrow> (Inl e, tr4)
                 | (Inr u, tr4) \<Rightarrow> (Inr (), tr4 @ [Log MsgDone]))) = (res, tr1)"
  shows "\<exists>ext. tr1 = tr @ ext \<and> rejected w tr (isl (res :: exn + unit)) ext"
proof -
  obtain r0 tr0 where f: "fetch_power_usage w token None (tr @ [Log MsgFetchingYesterday]) = (r0, tr0)"
    by (cases "fetch_power_usage w token None (tr @ [Log MsgFetchingYesterday])")
  show ?thesis
  proof (cases r0)
    case (Inl e)
    with assms f have r: "res = Inl e" "tr1 = tr0" by simp_all
    from f Inl have "fetch_power_usage w token None (tr @ [Log MsgFetchingYesterday]) = (Inl e, tr0)"
      by simp
    then have "\<exists>ext. tr0 = tr @ ext \<and> rejected w tr True ext"
      by (rule fetch_failed_rejected) simp
    with r show ?thesis by simp
  next
    case (Inr data)
    obtain r2 tr2 where g: "forward_to_blockbax w data (tr0 @ [Log MsgSending]) = (r2, tr2)"
      by (cases "forward_to_blockbax w data (tr0 @ [Log MsgSending])")
    from f Inr have f': "fetch_power_usage w token None (tr @ [Log MsgFetchingYesterday]) = (Inr data, tr0)"
      by simp
    have "\<exists>ext. tr2 = tr @ ext \<and> rejected w tr (isl r2) ext"
      using f' g by (rule fetch_forward_rejected) simp_all
    then obtain a where a: "tr2 = tr @ a" and sa: "rejected w tr (isl r2) a" by blast
    show ?thesis
    proof (cases r2)
      case (Inl e)
      with assms f Inr g have "res = Inl e" "tr1 = tr2" by simp_all
      with a sa Inl show ?thesis by simp
    next
      case (Inr u)
      with assms f \<open>r0 = Inr data\<close> g have r: "res = Inr ()" "tr1 = tr2 @ [Log MsgDone]" by simp_all
      from sa Inr have "rejected w tr False a" by simp
      then have "rejected w tr False (a @ [Log MsgDone])"
        by (rule rejected_then_logs) simp
      moreover from r a have "tr1 = tr @ (a @ [Log MsgDone])" by simp
      ultimately show ?thesis using r by auto
    qed
  qed
qed

text \<open>The part of \<open>main\<close> after the token was obtained, with backfill.\<close>

lemma backfill_days_rejected:
  assumes "(case backfill w token ks (tr @ [Log (MsgBackfilling n)]) of
              (Inl e, tr3) \<Rightarrow> (Inl e, tr3)
            | (Inr u, tr3) \<Rightarrow> (Inr (), tr3 @ [Log MsgBackfillComplete])) = (res, tr1)"
  shows "\<exists>ext. tr1 = tr @ ext \<and> rejected w tr (isl (res :: exn + unit)) ext"
proof -
  obtain r0 tr0 where f: "backfill w token ks (tr @ [Log (MsgBackfilling n)]) = (r0, tr0)"
    by (cases "backfill w token ks (tr @ [Log (MsgBackfilling n)])")
  from backfill_rejected[OF f] obtain a where
    a: "tr0 = (tr @ [Log (MsgBackfilling n)]) @ a"
    and sa: "rejected w (tr @ [Log (MsgBackfilling n)]) (isl r0) a" by blast
  have "\<not> list_ex is_meters_request [Log (MsgBackfilling n)]" by simp
  then have s: "rejected w tr (isl r0) ([Log (MsgBackfilling n)] @ a)"
    using sa by (rule rejected_prefix)
  show ?thesis
  proof (cases r0)
    case (Inl e)
    with assms f have "res = Inl e" "tr1 = tr0" by simp_all
    with a s Inl show ?thesis by simp
  next
    case (Inr u)
    with assms f have r: "res = Inr ()" "tr1 = tr0 @ [Log MsgBackfillComplete]" by simp_all
    from s Inr have "rejected w tr False ([Log (MsgBackfilling n)] @ a)" by simp
    then have "rejected w tr False (([Log (MsgBackfilling n)] @ a) @ [Log MsgBackfillComplete])"
      by (rule rejected_then_logs) simp
    moreover from r a have
      "tr1 = tr @ (([Log (MsgBackfilling n)] @ a) @ [Log MsgBackfillComplete])" by simp
    ultimately show ?thesis using r by auto
  qed
qed

lemma main_body_rejected:
  assumes "main_body w backfill_days tr = (res, tr1)"
  shows "\<exists>ext. tr1 = tr @ ext \<and> rejected w tr (isl res) ext"
proof -
  obtain r0 tr0 where c: "check_run_yesterday w tr = (r0, tr0)"
    by (cases "check_run_yesterday w tr")
  from check_run_yesterday_no_meters[OF c] obtain a where
    a: "tr0 = tr @ a" and na: "\<not> list_ex is_meters_request a" by blast
  show ?thesis
  proof (cases r0)
    case (Inl e)
    with assms c have "tr1 = tr0" by (simp add: main_body_def)
    moreover have "rejected w tr (isl res) a" using na by (rule rejected_no_meters_request)
    ultimately show ?thesis using a by blast
  next
    case (Inr found)
    show ?thesis
    proof (cases found)
      case True
      with assms c Inr have "tr1 = tr0 @ [Log MsgSkip]" by (simp add: main_body_def)
      with a have "tr1 = tr @ (a @ [Log MsgSkip])" by simp
      moreover have "\<not> list_ex is_meters_request (a @ [Log MsgSkip])" using na by simp
      then have "rejected w tr (isl res) (a @ [Log MsgSkip])" by (rule rejected_no_meters_request)
      ultimately show ?thesis by blast
    next
      case False
      obtain r2 tr2 where
        g: "get_access_token w (tr0 @ [Log MsgProceed, Log MsgAuthenticating]) = (r2, tr2)"
        by (cases "get_access_token w (tr0 @ [Log MsgProceed, Log MsgAuthenticating])")
      from get_access_token_no_meters[OF g] obtain b where
        b: "tr2 = (tr0 @ [Log MsgProceed, Log MsgAuthenticating]) @ b"
        and nb: "\<not> list_ex is_meters_request b" by blast
      define p where "p = a @ [Log MsgProceed, Log MsgAuthenticating] @ b"
      have p: "tr2 = tr @ p" using a b by (simp add: p_def)
      have np: "\<not> list_ex is_meters_request p" using na nb by (simp add: p_def)
      show ?thesis
      proof (cases r2)
        case (Inl e)
        with assms c Inr False g have "tr1 = tr2" by (simp add: main_body_def)
        moreover have "rejected w tr (isl res) p" using np by (rule rejected_no_meters_request)
        ultimately show ?thesis using p by blast
      next
        case (Inr token)
        have "\<exists>ext. tr1 = tr2 @ ext \<and> rejected w tr2 (isl res) ext"
        proof (cases "backfill_days > 0")
          case True
          with assms c \<open>r0 = Inr found\<close> False g Inr have
            "(case backfill w token (range_down backfill_days) (tr2 @ [Log (MsgBackfilling backfill_days)]) of
                (Inl e, tr3) \<Rightarrow> (Inl e, tr3)
              | (Inr u, tr3) \<Rightarrow> (Inr (), tr3 @ [Log MsgBackfillComplete])) = (res, tr1)"
            by (simp add: main_body_def)
          then show ?thesis by (rule backfill_days_rejected)
        next
          case nobackfill: False
          with assms c \<open>r0 = Inr found\<close> False g Inr have
            "(case fetch_power_usage w token None (tr2 @ [Log MsgFetchingYesterday]) of
                (Inl e, tr3) \<Rightarrow> (Inl e, tr3)
              | (Inr data, tr3) \<Rightarrow>
                  (case forward_to_blockbax w data (tr3 @ [Log MsgSending]) of
                     (Inl e, tr4) \<Rightarrow> (Inl e, tr4)
                   | (Inr u, tr4) \<Rightarrow> (Inr (), tr4 @ [Log MsgDone]))) = (res, tr1)"
            by (simp add: main_body_def)
          then show ?thesis by (rule single_day_rejected)
        qed
        then obtain ext where e: "tr1 = tr2 @ ext" and s: "rejected w tr2 (isl res) ext" by blast
        from s p have "rejected w (tr @ p) (isl res) ext" by simp
        with np have "rejected w tr (isl res) (p @ ext)" by (rule rejected_prefix)
        moreover from e p have "tr1 = tr @ (p @ ext)" by simp
        ultimately show ?thesis by blast
      qed
    qed
  qed
qed

text \<open>
  Claim C1, as the code has it. The enumerator accepts a response only if it is an object
  whose field \<open>meters\<close> is a list, and then the elements of the list that are not records
  bearing an identifier are skipped, not rejected. When the response is not of this shape,
  \<open>fetch_power_usage\<close> raises and has issued no per-meter request; and in every run of
  \<open>main\<close>, whatever the backfill day-count, nothing but log lines follows the first
  meter-list request answered with the wrong shape, the last of them the error message
  of the top-level handler: the run is aborted before the fetcher makes a request.
\<close>

theorem meter_list_shape_enforced:
  "(parse_meters r = Inr ids \<longrightarrow> meters_field (json_body r) \<noteq> None) \<and>
   (meters_field (json_body r) = Some ms \<longrightarrow>
      parse_meters r = dedup (meter_ids (filter is_meter_record ms)) {} []) \<and>
   (respond w tr (MetersReq token) = Inr r \<and> meters_field (json_body r) = None \<longrightarrow>
      (\<exists>e ext. fetch_power_usage w token date_arg tr = (Inl e, tr @ ext) \<and>
               (\<forall>x\<in>set ext. \<not> is_data_request x))) \<and>
   (\<exists>ext. snd (main w backfill_days tr) = tr @ ext \<and> aborts_after_mismatch w tr ext \<and>
          (has_mismatch w tr ext \<longrightarrow> (\<exists>e. last ext = Log (MsgError e))))"
proof -
  have a: "parse_meters r = Inr ids \<longrightarrow> meters_field (json_body r) \<noteq> None"
    using fetch_fails_on_shape[of r ids] by blast
  have b: "meters_field (json_body r) = Some ms \<longrightarrow>
      parse_meters r = dedup (meter_ids (filter is_meter_record ms)) {} []"
    by (simp add: parse_meters_shape meter_ids_filter)
  have c: "respond w tr (MetersReq token) = Inr r \<and> meters_field (json_body r) = None \<longrightarrow>
      (\<exists>e ext. fetch_power_usage w token date_arg tr = (Inl e, tr @ ext) \<and>
               (\<forall>x\<in>set ext. \<not> is_data_request x))"
    using fetch_fails_on_shape[of r ids w tr token date_arg] by blast
  obtain res tr1 where m: "main_body w backfill_days tr = (res, tr1)"
    by (cases "main_body w backfill_days tr")
  from main_body_rejected[OF m] obtain p where
    p: "tr1 = tr @ p" and sp: "rejected w tr (isl res) p" by blast
  have d: "\<exists>ext. snd (main w backfill_days tr) = tr @ ext \<and> aborts_after_mismatch w tr ext \<and>
          (has_mismatch w tr ext \<longrightarrow> (\<exists>e. last ext = Log (MsgError e)))"
  proof (cases res)
    case (Inl e)
    with m p have "snd (main w backfill_days tr) = tr @ (p @ [Log (MsgError e)])"
      by (simp add: main_def)
    moreover have "rejected w tr (isl res) (p @ [Log (MsgError e)])"
      using sp by (rule rejected_then_logs) simp
    then have "aborts_after_mismatch w tr (p @ [Log (MsgError e)])"
      by (simp add: rejected_def)
    moreover have "last (p @ [Log (MsgError e)]) = Log (MsgError e)" by simp
    ultimately show ?thesis by blast
  next
    case (Inr u)
    with m p have "snd (main w backfill_days tr) = tr @ p" by (simp add: main_def)
    moreover from sp Inr have "aborts_after_mismatch w tr p" "\<not> has_mismatch w tr p"
      by (simp_all add: rejected_def)
    ultimately show ?thesis by blast
  qed
  from a b c d show ?thesis by blast
qed

lemma demo_rejected_body:
  "main_body (demo_world (JList []) (JList [])) 0 [] =
     (Inl (ValueError ''Unexpected meters data format''),
      [Req SubjectsReq, Req (MeasurementsReq [JStr ''s1''] 19674 1),
       Log MsgProceed, Log MsgAuthenticating, Req TokenReq,
       Log MsgFetchingYesterday, Req (MetersReq (JStr ''T1'')),
       Log (MsgMetersFailed 200)])"
  by (simp add: main_body_def check_run_yesterday_def demo_world_def ok_json_def subjects_of_def
      raise_for_status_def minus_days_def min_secs_def max_secs_def utc_day_def has_result_def
      get_access_token_def token_of_def fetch_power_usage_def list_meters_def parse_meters_def)

theorem meter_list_shape_enforced_witness:
  "has_mismatch (demo_world (JList []) (JList [])) []
     (snd (main (demo_world (JList []) (JList [])) 0 [])) \<and>
   aborts_after_mismatch (demo_world (JList []) (JList [])) []
     (snd (main (demo_world (JList []) (JList [])) 0 [])) \<and>
   last (snd (main (demo_world (JList []) (JList [])) 0 [])) =
     Log (MsgError (ValueError ''Unexpected meters data format'')) \<and>
   meters_field (json_body \<lparr>status_code = 200, json_body = Some meter_list_AAB\<rparr>) \<noteq> None"
proof -
  have t: "snd (main (demo_world (JList []) (JList [])) 0 []) =
      [Req SubjectsReq, Req (MeasurementsReq [JStr ''s1''] 19674 1),
       Log MsgProceed, Log MsgAuthenticating, Req TokenReq,
       Log MsgFetchingYesterday, Req (MetersReq (JStr ''T1'')),
       Log (MsgMetersFailed 200),
       Log (MsgError (ValueError ''Unexpected meters data format''))]"
    by (simp add: main_def demo_rejected_body)
  have h: "has_mismatch (demo_world (JList []) (JList [])) []
      [Req SubjectsReq, Req (MeasurementsReq [JStr ''s1''] 19674 1),
       Log MsgProceed, Log MsgAuthenticating, Req TokenReq,
       Log MsgFetchingYesterday, Req (MetersReq (JStr ''T1'')),
       Log (MsgMetersFailed 200),
       Log (MsgError (ValueError ''Unexpected meters data format''))]"
    by (simp add: demo_respond ok_json_def)
  from meter_list_shape_enforced[where w = "demo_world (JList []) (JList [])" and tr = "[]"
      and backfill_days = 0
      and r = "\<lparr>status_code = 200, json_body = Some meter_list_AAB\<rparr>"
      and ids = "[JStr ''A'', JStr ''B'']"]
  have "aborts_after_mismatch (demo_world (JList []) (JList [])) []
      (snd (main (demo_world (JList []) (JList [])) 0 []))"
    and "meters_field (json_body \<lparr>status_code = 200, json_body = Some meter_list_AAB\<rparr>) \<noteq> None"
    by (simp_all add: demo_parse)
  with t h show ?thesis by simp
qed

end
